(* ===== verification/Prelude.thy ===== *)
theory Prelude
  imports Main "HOL-Library.Word"
begin

section \<open>Shared types, conversions and lemmas\<close>

text \<open>
  What the components share: the Go types the sources use (\<^verbatim>\<open>[]byte\<close>, \<^verbatim>\<open>NodeID\<close>,
  \<^verbatim>\<open>int32\<close> of the protocol messages, \<^verbatim>\<open>time.Time\<close>), reading a missing key of a Go map,
  the majority of a cluster, and generic facts on lists and maps.

  A Go \<^verbatim>\<open>int\<close> is 64 bits wide on the platforms the program builds for; terms, indexes and
  counters grow by one per event, so they are unbounded \<open>int\<close> here. The protocol messages
  carry \<^verbatim>\<open>int32\<close> fields: there the width matters, and the conversions wrap as Go's do.
  A Go string and a byte slice are both a list of bytes, here of \<open>char\<close>; a nil slice and an
  empty one are the same list.
\<close>

type_synonym bytes = string
type_synonym NodeID = string
type_synonym error = string
type_synonym int32 = "32 word"
type_synonym time = int

named_theorems log_simps \<open>facts on the log index helpers\<close>
named_theorems frame_simps \<open>fields an operation leaves alone\<close>
named_theorems wf_intros \<open>operations keep the log well-formed\<close>

subsection \<open>The integers of the protocol messages\<close>

text \<open>\<open>int32 x\<close> is Go's conversion \<^verbatim>\<open>int32(x)\<close>, \<open>int_of32 w\<close> is \<^verbatim>\<open>int(w)\<close>.\<close>

definition int32 :: "int \<Rightarrow> int32" where
  "int32 x = word_of_int x"

definition int_of32 :: "int32 \<Rightarrow> int" where
  "int_of32 w = sint w"

definition fits32 :: "int \<Rightarrow> bool" where
  "fits32 x \<longleftrightarrow> - (2 ^ 31) \<le> x \<and> x < 2 ^ 31"

lemma int_of32_int32: "fits32 x \<Longrightarrow> int_of32 (int32 x) = x"
  by (simp add: int_of32_def int32_def fits32_def sint_sbintrunc' signed_take_bit_int_eq_self)

lemma fits32_int_of32 [simp]: "fits32 (int_of32 w)"
  using sint_range_size [of w] by (simp add: fits32_def int_of32_def word_size)

lemma int32_int_of32 [simp]: "int32 (int_of32 w) = w"
  by (simp add: int32_def int_of32_def)

lemma fits32_mono: "0 \<le> x \<Longrightarrow> x \<le> y \<Longrightarrow> fits32 y \<Longrightarrow> fits32 x"
  by (simp add: fits32_def)

subsection \<open>Maps with the zero value for a missing key\<close>

definition mget :: "('k \<rightharpoonup> int) \<Rightarrow> 'k \<Rightarrow> int" where
  "mget m k = (case m k of None \<Rightarrow> 0 | Some v \<Rightarrow> v)"

lemma mget_upd [simp]: "mget (m(k \<mapsto> v)) k' = (if k' = k then v else mget m k')"
  by (simp add: mget_def)

lemma mget_del [simp]: "mget (m(k := None)) k' = (if k' = k then 0 else mget m k')"
  by (simp add: mget_def)

lemma mget_empty [simp]: "mget Map.empty k = 0"
  by (simp add: mget_def)

text \<open>A loop that stores the same value under each key of a list.\<close>

definition set_all :: "'k list \<Rightarrow> 'v \<Rightarrow> ('k \<rightharpoonup> 'v) \<Rightarrow> ('k \<rightharpoonup> 'v)" where
  "set_all ks v m = fold (\<lambda>k m. m(k \<mapsto> v)) ks m"

lemma set_all_apply: "set_all ks v m k = (if k \<in> set ks then Some v else m k)"
  unfolding set_all_def by (induction ks arbitrary: m) auto

lemma mget_set_all [simp]: "mget (set_all ks v m) k = (if k \<in> set ks then v else mget m k)"
  by (simp add: mget_def set_all_apply)

subsection \<open>Lists\<close>

lemma nth_take_drop_split:
  "k < length xs \<Longrightarrow> take k xs @ xs ! k # drop (Suc k) xs = xs"
  by (simp add: id_take_nth_drop [symmetric])

lemma drop_eq_Cons: "k < length xs \<Longrightarrow> drop k xs = xs ! k # drop (Suc k) xs"
  by (simp add: Cons_nth_drop_Suc)

lemma take_Suc_snoc: "k < length xs \<Longrightarrow> take (Suc k) xs = take k xs @ [xs ! k]"
  by (simp add: take_Suc_conv_app_nth)

subsection \<open>Invariants of a state machine\<close>

text \<open>Operations that keep an invariant keep it along every sequence of them.\<close>

locale kept_invariant =
  fixes step :: "'op \<Rightarrow> 's \<Rightarrow> 's" and inv :: "'s \<Rightarrow> bool" and ok :: "'op \<Rightarrow> 's \<Rightarrow> bool"
  assumes step_inv: "inv s \<Longrightarrow> ok m s \<Longrightarrow> inv (step m s)"
begin

fun run :: "'op list \<Rightarrow> 's \<Rightarrow> 's" where
  "run [] s = s"
| "run (m # ms) s = run ms (step m s)"

fun all_ok :: "'op list \<Rightarrow> 's \<Rightarrow> bool" where
  "all_ok [] s \<longleftrightarrow> True"
| "all_ok (m # ms) s \<longleftrightarrow> ok m s \<and> all_ok ms (step m s)"

lemma run_append: "run (ms @ ns) s = run ns (run ms s)"
  by (induction ms arbitrary: s) auto

lemma run_inv: "inv s \<Longrightarrow> all_ok ms s \<Longrightarrow> inv (run ms s)"
  by (induction ms arbitrary: s) (auto intro: step_inv)

end

end
