(* ===== verification/Raft_Types.thy ===== *)
theory Raft_Types
  imports Prelude
begin

section \<open>Data of the consensus module\<close>

text \<open>
  The types of \<^verbatim>\<open>internal/raft/types.go\<close>, the \<^verbatim>\<open>Raft\<close> struct of
  \<^verbatim>\<open>internal/raft/raft.go\<close>, the snapshot of \<^verbatim>\<open>snapshot.go\<close> and the messages of
  \<^verbatim>\<open>raftpb\<close>. A handler of the code runs under \<^verbatim>\<open>r.mu\<close>; it is modelled as a
  function from the state to the new state, with \<^verbatim>\<open>time.Now()\<close> and other outside
  results as arguments, and the goroutines it starts as a list of \<open>effect\<close>s.
\<close>

subsection \<open>Commands and log entries\<close>

datatype CommandType = CmdPut | CmdDelete | CmdConfigChange

fun CommandType_int :: "CommandType \<Rightarrow> int" where
  "CommandType_int CmdPut = 0"
| "CommandType_int CmdDelete = 1"
| "CommandType_int CmdConfigChange = 2"

datatype ConfigChangeType = ConfigAddNode | ConfigRemoveNode

record LogEntry =
  Index :: int
  Term :: int
  Data :: bytes

record Snapshot =
  LastIncludedIndex :: int
  LastIncludedTerm :: int
  CreatedAt :: int
  SnapData :: bytes

datatype RaftState = Follower | Candidate | Leader

fun RaftState_String :: "RaftState \<Rightarrow> string" where
  "RaftState_String Follower = ''follower''"
| "RaftState_String Candidate = ''candidate''"
| "RaftState_String Leader = ''leader''"

definition snapshotCheckThreshold :: int where
  "snapshotCheckThreshold = 50"

definition maxEntriesPerBatch :: nat where
  "maxEntriesPerBatch = 100"

definition maxPipelineInflight :: nat where
  "maxPipelineInflight = 3"

subsection \<open>Files\<close>

text \<open>
  The three stores write through \<^verbatim>\<open>os.WriteFile\<close> and \<^verbatim>\<open>os.Rename\<close>. \<open>faults\<close>
  decides the outcome of the next calls: \<open>NoFault\<close> succeeds, \<open>Fault None\<close> fails and
  leaves the target as it is, \<open>Fault (Some b)\<close> fails with \<open>b\<close> left in the file written.
  When the list is used up every call succeeds.
\<close>

datatype fault = NoFault | Fault "bytes option"

record fs =
  files :: "string \<rightharpoonup> bytes"
  faults :: "fault list"

subsection \<open>The node\<close>

text \<open>
  \<open>waiters\<close> maps a log index to a channel; a channel is a number, and \<open>closed\<close> holds
  those that were closed. \<open>applyCh\<close> is the queue of entries sent and not yet received.
  \<open>snapshotter\<close> and \<open>restorer\<close> say whether the callback is registered; what a callback
  returns is an argument of the operation that calls it. \<open>pipelineSemaphores\<close> maps a peer to
  the number of permits taken from its semaphore channel.
\<close>

record raft =
  id_r :: NodeID
  peers :: "NodeID list"
  state :: RaftState
  term_r :: int
  votes :: int
  votedFor :: NodeID
  electionReset :: time
  log_r :: "LogEntry list"
  commitIndex :: int
  lastApplied :: int
  nextIndex :: "NodeID \<rightharpoonup> int"
  matchIndex :: "NodeID \<rightharpoonup> int"
  applyCh :: "LogEntry list"
  waiters :: "int \<rightharpoonup> nat"
  closed :: "nat set"
  nextChan :: nat
  leader :: NodeID
  logBaseIndex :: int
  snapshot :: "Snapshot option"
  snapshotter :: bool
  restorer :: bool
  pipelineSemaphores :: "NodeID \<rightharpoonup> nat"
  removedFromCluster :: bool
  dataDir :: string
  fs_r :: fs

text \<open>The struct literal of \<^verbatim>\<open>New\<close>.\<close>

definition newRaft ::
  "NodeID \<Rightarrow> NodeID list \<Rightarrow> int \<Rightarrow> NodeID \<Rightarrow> time \<Rightarrow> LogEntry list \<Rightarrow> int \<Rightarrow> Snapshot option \<Rightarrow>
   string \<Rightarrow> fs \<Rightarrow> raft"
where
  "newRaft i ps t vf now es base snap dir d =
     \<lparr>id_r = i, peers = ps, state = Follower, term_r = t, votes = 0, votedFor = vf,
      electionReset = now, log_r = es, commitIndex = 0, lastApplied = 0,
      nextIndex = Map.empty, matchIndex = Map.empty, applyCh = [], waiters = Map.empty,
      closed = {}, nextChan = 0, leader = [], logBaseIndex = base, snapshot = snap,
      snapshotter = False, restorer = False, pipelineSemaphores = Map.empty,
      removedFromCluster = False, dataDir = dir, fs_r = d\<rparr>"

text \<open>What a handler starts outside its critical section.\<close>

datatype effect =
    GoBroadcastRequestVote int
  | GoHeartbeatLoop
  | GoSendSnapshot NodeID
  | CallRestorer bytes
  | GoTimeoutNow NodeID

subsection \<open>Messages\<close>

record pbLogEntry =
  pe_Index :: int32
  pe_Term :: int32
  pe_Data :: bytes

record AppendEntriesRequest =
  ae_Term :: int32
  ae_LeaderId :: string
  ae_PrevLogIndex :: int32
  ae_PrevLogTerm :: int32
  ae_Entries :: "pbLogEntry list"
  ae_LeaderCommit :: int32

record AppendEntriesResponse =
  aer_Term :: int32
  aer_Success :: bool

record RequestVoteRequest =
  rv_CandidateId :: string
  rv_Term :: int32
  rv_LastLogIndex :: int32
  rv_LastLogTerm :: int32

record RequestVoteResponse =
  rvr_Term :: int32
  rvr_VoteGranted :: bool

record InstallSnapshotRequest =
  is_Term :: int32
  is_LeaderId :: string
  is_LastIncludedIndex :: int32
  is_LastIncludedTerm :: int32
  is_Data :: bytes

record InstallSnapshotResponse =
  isr_Term :: int32

record TimeoutNowRequest =
  tn_Term :: int32
  tn_LeaderId :: string

record TimeoutNowResponse =
  tnr_Term :: int32
  tnr_Success :: bool

text \<open>\<open>AddNodeResponse\<close>, \<open>RemoveNodeResponse\<close> and \<open>TransferLeadershipResponse\<close>
  have the same two fields.\<close>

record AdminResponse =
  adm_Success :: bool
  adm_Error :: string

end
