(* ===== verification/Raft_Log.thy ===== *)
theory Raft_Log
  imports Raft_Types
begin

section \<open>Log index helpers\<close>

text \<open>
  The helpers of \<^verbatim>\<open>raft.go\<close> that translate absolute log indexes to positions of the
  compacted slice (\<^verbatim>\<open>lastLogIndex\<close>, \<^verbatim>\<open>lastLogTerm\<close>, \<^verbatim>\<open>entryAt\<close>,
  \<^verbatim>\<open>sliceFrom\<close>), the well-formedness invariant they rely on, and the overwrite loop of
  \<^verbatim>\<open>AppendEntries\<close> with the reference it is equivalent to.
\<close>

definition lastLogIndex :: "raft \<Rightarrow> int" where
  "lastLogIndex r =
     (if log_r r = [] then logBaseIndex r else Index (last (log_r r)))"

definition lastLogTerm :: "raft \<Rightarrow> int" where
  "lastLogTerm r = (if log_r r = [] then 0 else Term (last (log_r r)))"

definition entryAt :: "raft \<Rightarrow> int \<Rightarrow> LogEntry option" where
  "entryAt r idx =
     (if log_r r = [] then None
      else if idx < logBaseIndex r then None
      else let offset = idx - logBaseIndex r in
        if offset < 0 \<or> int (length (log_r r)) \<le> offset then None
        else Some (log_r r ! nat offset))"

definition sliceFrom :: "raft \<Rightarrow> int \<Rightarrow> LogEntry list" where
  "sliceFrom r i =
     (let j = (if i < logBaseIndex r then logBaseIndex r else i);
          start = j - logBaseIndex r
      in if start < 0 \<or> int (length (log_r r)) \<le> start then []
         else drop (nat start) (log_r r))"

subsection \<open>Well-formed logs\<close>

text \<open>Entry \<open>k\<close> of a slice that starts at \<open>base\<close> has index \<open>base + k\<close>.\<close>

definition contiguous :: "int \<Rightarrow> LogEntry list \<Rightarrow> bool" where
  "contiguous base es \<longleftrightarrow> (\<forall>k < length es. Index (es ! k) = base + int k)"

definition wf_log :: "raft \<Rightarrow> bool" where
  "wf_log r \<longleftrightarrow> log_r r \<noteq> [] \<and> 0 \<le> logBaseIndex r \<and> contiguous (logBaseIndex r) (log_r r)"

lemma contiguous_Nil [simp, intro!]: "contiguous b []"
  by (simp add: contiguous_def)

lemma contiguous_nth: "contiguous b es \<Longrightarrow> k < length es \<Longrightarrow> Index (es ! k) = b + int k"
  by (simp add: contiguous_def)

lemma contiguous_Cons [simp]:
  "contiguous b (e # es) \<longleftrightarrow> Index e = b \<and> contiguous (b + 1) es"
  by (auto simp: contiguous_def nth_Cons' less_Suc_eq_0_disj all_conj_distrib algebra_simps)

lemma contiguous_append [simp]:
  "contiguous b (xs @ ys) \<longleftrightarrow> contiguous b xs \<and> contiguous (b + int (length xs)) ys"
  by (induction xs arbitrary: b) (auto simp: algebra_simps)

lemma contiguous_take [intro]: "contiguous b es \<Longrightarrow> contiguous b (take n es)"
  by (simp add: contiguous_def)

lemma contiguous_drop:
  "contiguous b es \<Longrightarrow> n \<le> length es \<Longrightarrow> contiguous (b + int n) (drop n es)"
  by (simp add: contiguous_def)

lemma contiguous_last:
  "contiguous b es \<Longrightarrow> es \<noteq> [] \<Longrightarrow> Index (last es) = b + int (length es) - 1"
  by (simp add: last_conv_nth contiguous_nth of_nat_diff Suc_leI)

lemma contiguous_mem_range:
  "contiguous b es \<Longrightarrow> e \<in> set es \<Longrightarrow> b \<le> Index e \<and> Index e < b + int (length es)"
  by (auto simp: in_set_conv_nth contiguous_nth)

text \<open>On a contiguous list, keeping the entries from an index on is dropping a prefix.\<close>

lemma contiguous_filter_ge:
  "contiguous b es \<Longrightarrow> filter (\<lambda>e. i \<le> Index e) es = drop (nat (i - b)) es"
proof (induction es arbitrary: b)
  case Nil
  then show ?case by simp
next
  case (Cons e es)
  show ?case
  proof (cases "i \<le> b")
    case True
    with Cons.prems Cons.IH [of "b + 1"] have "filter (\<lambda>e. i \<le> Index e) es = es" by simp
    with True Cons.prems show ?thesis by simp
  next
    case False
    with Cons.prems Cons.IH [of "b + 1"]
    have "filter (\<lambda>e. i \<le> Index e) es = drop (nat (i - (b + 1))) es" by simp
    moreover from False have "nat (i - b) = Suc (nat (i - (b + 1)))" by simp
    ultimately show ?thesis using False Cons.prems by simp
  qed
qed

lemma contiguous_filter_le:
  "contiguous b es \<Longrightarrow> filter (\<lambda>e. Index e \<le> c) es = take (nat (c + 1 - b)) es"
proof (induction es arbitrary: b)
  case (Cons e es)
  show ?case
  proof (cases "b \<le> c")
    case True
    then have "nat (c + 1 - b) = Suc (nat (c + 1 - (b + 1)))" by simp
    with True Cons.prems Cons.IH [of "b + 1"] show ?thesis by simp
  next
    case False
    with Cons.prems Cons.IH [of "b + 1"] show ?thesis by simp
  qed
qed simp

lemma contiguous_filter_range:
  assumes "contiguous b es" and "b \<le> l + 1" and "c < b + int (length es)"
  shows "filter (\<lambda>e. l < Index e \<and> Index e \<le> c) es = map (\<lambda>i. es ! nat (i - b)) [l + 1..c]"
proof -
  let ?m = "nat (l + 1 - b)" and ?n = "nat (c - l)"
  have "filter (\<lambda>e. l < Index e \<and> Index e \<le> c) es =
      filter (\<lambda>e. Index e \<le> c) (filter (\<lambda>e. l + 1 \<le> Index e) es)"
    by (auto intro: filter_cong)
  also have "\<dots> = take ?n (drop ?m es)"
  proof (cases "?m \<le> length es")
    case True
    with assms(1,2) contiguous_drop [of b es ?m] have "contiguous (l + 1) (drop ?m es)" by simp
    with contiguous_filter_le [of "l + 1" "drop ?m es" c] show ?thesis
      by (simp add: contiguous_filter_ge [OF assms(1)])
  qed (simp add: contiguous_filter_ge [OF assms(1)])
  also have "\<dots> = map (\<lambda>i. es ! nat (i - b)) [l + 1..c]"
    using assms(2,3) by (intro nth_equalityI) (auto simp: nat_add_distrib [symmetric] intro: arg_cong [of _ _ "nth es"])
  finally show ?thesis .
qed

lemma lastLogIndex_wf [log_simps]:
  "wf_log r \<Longrightarrow> lastLogIndex r = logBaseIndex r + int (length (log_r r)) - 1"
  by (simp add: wf_log_def lastLogIndex_def contiguous_last)

lemma base_le_last: "wf_log r \<Longrightarrow> logBaseIndex r \<le> lastLogIndex r"
  by (cases "log_r r") (auto simp: lastLogIndex_wf wf_log_def)

lemma entryAt_eq:
  "entryAt r i =
     (if logBaseIndex r \<le> i \<and> i < logBaseIndex r + int (length (log_r r))
      then Some (log_r r ! nat (i - logBaseIndex r)) else None)"
  by (auto simp: entryAt_def Let_def)

lemma entryAt_SomeD:
  assumes "entryAt r i = Some e" and "wf_log r"
  shows "Index e = i" and "e \<in> set (log_r r)"
    and "logBaseIndex r \<le> i" and "i \<le> lastLogIndex r"
  using assms
  by (auto simp: entryAt_eq wf_log_def contiguous_nth lastLogIndex_wf split: if_splits)

lemma entryAt_ne_None_iff:
  "wf_log r \<Longrightarrow> entryAt r i \<noteq> None \<longleftrightarrow> logBaseIndex r \<le> i \<and> i \<le> lastLogIndex r"
  by (auto simp: entryAt_eq lastLogIndex_wf)

lemma entryAt_last: "wf_log r \<Longrightarrow> entryAt r (lastLogIndex r) = Some (last (log_r r))"
  by (auto simp: entryAt_eq lastLogIndex_wf wf_log_def last_conv_nth Suc_le_eq nat_diff_distrib)

lemma entryAt_Some_nth:
  "wf_log r \<Longrightarrow> k < length (log_r r) \<Longrightarrow> entryAt r (logBaseIndex r + int k) = Some (log_r r ! k)"
  by (simp add: entryAt_eq)

text \<open>On a well-formed log \<open>entryAt\<close> returns exactly the entry that carries the
  absolute index asked for, wherever compaction has cut the slice, and nothing otherwise.\<close>

theorem entryAt_correct:
  assumes "wf_log r"
  shows "entryAt r i = Some e \<longleftrightarrow> e \<in> set (log_r r) \<and> Index e = i"
proof
  assume "entryAt r i = Some e"
  with assms show "e \<in> set (log_r r) \<and> Index e = i"
    by (auto dest: entryAt_SomeD)
next
  assume *: "e \<in> set (log_r r) \<and> Index e = i"
  then obtain k where k: "k < length (log_r r)" "log_r r ! k = e"
    by (auto simp: in_set_conv_nth)
  with assms * have "i = logBaseIndex r + int k"
    by (auto simp: wf_log_def contiguous_nth)
  with assms k show "entryAt r i = Some e"
    by (simp add: entryAt_Some_nth)
qed

text \<open>A node whose log was compacted at index 4, for concrete instances.\<close>

definition node4 :: raft where
  "node4 = newRaft ''n1'' [''n2'', ''n3''] 2 [] 0
     [\<lparr>Index = 4, Term = 1, Data = []\<rparr>, \<lparr>Index = 5, Term = 1, Data = ''a''\<rparr>,
      \<lparr>Index = 6, Term = 2, Data = ''b''\<rparr>] 4 None ''d'' \<lparr>files = Map.empty, faults = []\<rparr>"

lemma wf_node4: "wf_log node4"
  by (simp add: wf_log_def node4_def newRaft_def)

theorem entryAt_correct_witness:
  "wf_log node4 \<and> entryAt node4 5 = Some \<lparr>Index = 5, Term = 1, Data = ''a''\<rparr>"
  using wf_node4 entryAt_correct [OF wf_node4, of 5 "\<lparr>Index = 5, Term = 1, Data = ''a''\<rparr>"]
  by (simp add: node4_def newRaft_def)

text \<open>On a well-formed log \<open>sliceFrom\<close> is the list of the entries whose index is at
  least the one asked for, in log order; the offset arithmetic and both early returns
  agree with that reference.\<close>

theorem sliceFrom_filter:
  assumes "wf_log r"
  shows "sliceFrom r i = filter (\<lambda>e. i \<le> Index e) (log_r r)"
  using assms contiguous_filter_ge [of "logBaseIndex r" "log_r r" i]
  by (auto simp: sliceFrom_def Let_def wf_log_def)

theorem sliceFrom_filter_witness:
  "wf_log node4 \<and> map Index (sliceFrom node4 5) = [5, 6]"
  using wf_node4 sliceFrom_filter [OF wf_node4, of 5] by (simp add: node4_def newRaft_def)

subsection \<open>Appending at the end\<close>

lemma wf_log_append [wf_intros]:
  assumes "wf_log r" and "Index e = lastLogIndex r + 1"
  shows "wf_log (r\<lparr>log_r := log_r r @ [e]\<rparr>)"
  using assms by (simp add: wf_log_def lastLogIndex_wf [unfolded wf_log_def])

subsection \<open>The overwrite loop of AppendEntries\<close>

text \<open>
  Step 5 of \<^verbatim>\<open>AppendEntries\<close>: entries below the base are skipped, an entry already there
  with the same term is skipped, a conflicting one cuts the log at its position, and the
  entry is appended.
\<close>

definition toLogEntry :: "pbLogEntry \<Rightarrow> LogEntry" where
  "toLogEntry e = \<lparr>Index = int_of32 (pe_Index e), Term = int_of32 (pe_Term e), Data = pe_Data e\<rparr>"

lemma toLogEntry_sel [simp]:
  "Index (toLogEntry e) = int_of32 (pe_Index e)"
  "Term (toLogEntry e) = int_of32 (pe_Term e)"
  "Data (toLogEntry e) = pe_Data e"
  by (simp_all add: toLogEntry_def)

fun appendLoop :: "int \<Rightarrow> LogEntry list \<Rightarrow> pbLogEntry list \<Rightarrow> LogEntry list" where
  "appendLoop base lg [] = lg"
| "appendLoop base lg (e # es) =
     (let absIdx = int_of32 (pe_Index e); offset = absIdx - base in
      if offset < 0 then appendLoop base lg es
      else if offset < int (length lg) then
        if Term (lg ! nat offset) \<noteq> int_of32 (pe_Term e)
        then appendLoop base (take (nat offset) lg @ [toLogEntry e]) es
        else appendLoop base lg es
      else appendLoop base (lg @ [toLogEntry e]) es)"

text \<open>
  The reference: \<open>overlay old new\<close> keeps the old entries as long as the terms agree, and
  takes the new ones from the first disagreement on; where the new entries run out first
  the old tail stays.
\<close>

fun overlay :: "LogEntry list \<Rightarrow> LogEntry list \<Rightarrow> LogEntry list" where
  "overlay os [] = os"
| "overlay [] ns = ns"
| "overlay (e # os) (n # ns) = (if Term e = Term n then e # overlay os ns else n # ns)"

lemma overlay_Nil [simp]: "overlay [] ns = ns"
  by (cases ns) simp_all

lemma contiguous_overlay:
  "contiguous b os \<Longrightarrow> contiguous b ns \<Longrightarrow> contiguous b (overlay os ns)"
  by (induction os ns arbitrary: b rule: overlay.induct) auto

lemma length_overlay: "length ns \<le> length (overlay os ns)"
  by (induction os ns rule: overlay.induct) auto

lemma overlay_terms:
  "k < length ns \<Longrightarrow> Term (overlay os ns ! k) = Term (ns ! k)"
proof (induction os ns arbitrary: k rule: overlay.induct)
  case (3 e os n ns)
  then show ?case by (cases k) auto
qed simp_all

text \<open>Appending behind the end needs no case distinction once the log ends before the
  first entry.\<close>

lemma appendLoop_tail:
  "contiguous (base + int (length lg)) (map toLogEntry es) \<Longrightarrow>
     appendLoop base lg es = lg @ map toLogEntry es"
proof (induction es arbitrary: lg)
  case Nil
  then show ?case by simp
next
  case (Cons e es)
  then have "int_of32 (pe_Index e) = base + int (length lg)"
    by simp
  moreover from Cons.prems have
    "contiguous (base + int (length (lg @ [toLogEntry e]))) (map toLogEntry es)"
    by (simp add: algebra_simps)
  note Cons.IH [OF this]
  ultimately show ?case by (simp add: Let_def)
qed

lemma appendLoop_overlay:
  "p \<le> length lg \<Longrightarrow> contiguous (base + int p) (map toLogEntry es) \<Longrightarrow>
     appendLoop base lg es = take p lg @ overlay (drop p lg) (map toLogEntry es)"
proof (induction es arbitrary: p)
  case Nil
  then show ?case by simp
next
  case (Cons e es)
  then have idx: "int_of32 (pe_Index e) = base + int p"
    and rest: "contiguous (base + int (Suc p)) (map toLogEntry es)"
    by (auto simp: algebra_simps)
  consider (out) "p = length lg" | (same) "p < length lg" "Term (lg ! p) = int_of32 (pe_Term e)"
    | (conflict) "p < length lg" "Term (lg ! p) \<noteq> int_of32 (pe_Term e)"
    using Cons.prems(1) by linarith
  then show ?case
  proof cases
    case out
    with Cons.prems(2) show ?thesis
      by (simp add: appendLoop_tail [of base lg "e # es"] del: appendLoop.simps)
  next
    case same
    with Cons.IH [OF _ rest] have
      "appendLoop base lg es = take (Suc p) lg @ overlay (drop (Suc p) lg) (map toLogEntry es)"
      by simp
    with same idx show ?thesis
      by (simp add: Let_def drop_eq_Cons take_Suc_snoc)
  next
    case conflict
    then have "appendLoop base lg (e # es) = appendLoop base (take p lg @ [toLogEntry e]) es"
      using idx by (simp add: Let_def)
    also have "\<dots> = (take p lg @ [toLogEntry e]) @ map toLogEntry es"
      using conflict rest by (intro appendLoop_tail) (simp add: algebra_simps min_def)
    finally show ?thesis
      using conflict by (simp add: drop_eq_Cons del: appendLoop.simps)
  qed
qed

end
