(* ===== verification/Go_Text.thy ===== *)
theory Go_Text
  imports Prelude
begin

section \<open>Decimal numbers and strings of the Go library\<close>

text \<open>
  What the sources use of \<^verbatim>\<open>strconv\<close> and \<^verbatim>\<open>strings\<close>: \<^verbatim>\<open>Itoa\<close> and \<^verbatim>\<open>%d\<close>,
  \<^verbatim>\<open>Atoi\<close> and \<^verbatim>\<open>ParseInt\<close>, \<^verbatim>\<open>HasPrefix\<close>, \<^verbatim>\<open>Cut\<close>, \<^verbatim>\<open>Index\<close>, \<^verbatim>\<open>Contains\<close>,
  \<^verbatim>\<open>Split\<close> at one character and \<^verbatim>\<open>TrimSpace\<close>.
\<close>

subsection \<open>strconv\<close>

definition digit_char :: "nat \<Rightarrow> char" where
  "digit_char d = char_of (48 + d)"

definition is_digit :: "char \<Rightarrow> bool" where
  "is_digit c \<longleftrightarrow> 48 \<le> (of_char c :: nat) \<and> (of_char c :: nat) \<le> 57"

definition digit_val :: "char \<Rightarrow> nat" where
  "digit_val c = of_char c - 48"

fun nat_dec :: "nat \<Rightarrow> string" where
  "nat_dec n = (if n < 10 then [digit_char n] else nat_dec (n div 10) @ [digit_char (n mod 10)])"

declare nat_dec.simps [simp del]

definition Itoa :: "int \<Rightarrow> string" where
  "Itoa i = (if i < 0 then CHR ''-'' # nat_dec (nat (- i)) else nat_dec (nat i))"

definition dec_val :: "string \<Rightarrow> nat" where
  "dec_val s = foldl (\<lambda>a c. 10 * a + digit_val c) 0 s"

definition all_digits :: "string \<Rightarrow> bool" where
  "all_digits s \<longleftrightarrow> s \<noteq> [] \<and> list_all is_digit s"

definition int64_range :: "int \<Rightarrow> bool" where
  "int64_range i \<longleftrightarrow> - (2 ^ 63) \<le> i \<and> i < 2 ^ 63"

text \<open>\<open>Atoi\<close> is \<open>ParseInt\<close> with base 10: an optional sign and decimal digits, refused
  outside 64 bits.\<close>

definition Atoi :: "string \<Rightarrow> int option" where
  "Atoi s =
     (let (neg, ds) = (case s of c # cs \<Rightarrow> if c = CHR ''-'' then (True, cs)
                                 else if c = CHR ''+'' then (False, cs) else (False, s)
                       | [] \<Rightarrow> (False, s));
          i = (if neg then - int (dec_val ds) else int (dec_val ds))
      in if all_digits ds \<and> int64_range i then Some i else None)"

lemma of_char_digit_char [simp]: "d < 10 \<Longrightarrow> (of_char (digit_char d) :: nat) = 48 + d"
  by (simp add: digit_char_def)

lemma is_digit_digit_char [simp]: "d < 10 \<Longrightarrow> is_digit (digit_char d)"
  by (simp add: is_digit_def)

lemma digit_val_digit_char [simp]: "d < 10 \<Longrightarrow> digit_val (digit_char d) = d"
  by (simp add: digit_val_def)

lemma not_digit_chars [simp]:
  "\<not> is_digit (CHR ''-'')" "\<not> is_digit (CHR ''+'')" "\<not> is_digit (CHR '','')"
  "\<not> is_digit (CHR '']'')" "\<not> is_digit (CHR ''}'')" "\<not> is_digit (CHR '':'')"
  "\<not> is_digit (CHR ''.'')" "\<not> is_digit (CHR ''e'')" "\<not> is_digit (CHR ''E'')"
  by (simp_all add: is_digit_def)

lemma nat_dec_digits: "list_all is_digit (nat_dec n)"
proof (induction n rule: nat_dec.induct)
  case (1 n)
  then show ?case by (subst nat_dec.simps) auto
qed

lemma nat_dec_ne [simp]: "nat_dec n \<noteq> []"
  by (subst nat_dec.simps) simp

lemma all_digits_nat_dec [simp]: "all_digits (nat_dec n)"
  by (simp add: all_digits_def nat_dec_digits)

lemma dec_val_nat_dec [simp]: "dec_val (nat_dec n) = n"
proof (induction n rule: nat_dec.induct)
  case (1 n)
  then show ?case by (subst nat_dec.simps) (auto simp: dec_val_def)
qed

lemma hd_nat_dec: "is_digit (hd (nat_dec n))"
  using nat_dec_digits [of n] by (cases "nat_dec n") (auto simp: list_all_iff)

lemma nat_dec_Cons: "\<exists>c cs. nat_dec n = c # cs \<and> is_digit c"
  using hd_nat_dec [of n] by (cases "nat_dec n") auto

lemma Atoi_digits:
  assumes "all_digits s" and "int64_range (int (dec_val s))"
  shows "Atoi s = Some (int (dec_val s))"
proof (cases s)
  case (Cons c cs)
  with assms(1) have "is_digit c" by (simp add: all_digits_def)
  then have "c \<noteq> CHR ''-''" "c \<noteq> CHR ''+''" by auto
  with Cons assms show ?thesis by (simp add: Atoi_def)
qed (use assms in \<open>simp add: all_digits_def\<close>)

lemma Atoi_nat_dec: "int64_range (int n) \<Longrightarrow> Atoi (nat_dec n) = Some (int n)"
  using Atoi_digits [of "nat_dec n"] by simp

lemma Atoi_Itoa: "int64_range i \<Longrightarrow> Atoi (Itoa i) = Some i"
proof (cases "i < 0")
  case True
  moreover assume "int64_range i"
  ultimately show ?thesis by (simp add: Itoa_def Atoi_def)
next
  case False
  moreover assume "int64_range i"
  ultimately show ?thesis using Atoi_nat_dec [of "nat i"] by (simp add: Itoa_def)
qed

subsection \<open>strings\<close>

fun HasPrefix :: "string \<Rightarrow> string \<Rightarrow> bool" where
  "HasPrefix s [] = True"
| "HasPrefix [] (c # cs) = False"
| "HasPrefix (d # s) (c # cs) = (d = c \<and> HasPrefix s cs)"

text \<open>The position of the first occurrence, \<open>None\<close> for Go's \<open>-1\<close>.\<close>

fun strIndex :: "string \<Rightarrow> string \<Rightarrow> nat option" where
  "strIndex [] sub = (if sub = [] then Some 0 else None)"
| "strIndex (c # s) sub =
     (if HasPrefix (c # s) sub then Some 0 else map_option Suc (strIndex s sub))"

definition Contains :: "string \<Rightarrow> string \<Rightarrow> bool" where
  "Contains s sub \<longleftrightarrow> strIndex s sub \<noteq> None"

text \<open>\<open>Cut\<close> at a one-character separator: before, after, found.\<close>

fun Cut :: "string \<Rightarrow> char \<Rightarrow> string \<times> string \<times> bool" where
  "Cut [] sep = ([], [], False)"
| "Cut (c # s) sep =
     (if c = sep then ([], s, True)
      else let (before, after, found) = Cut s sep in (c # before, after, found))"

text \<open>\<open>Split\<close> at a one-character separator.\<close>

fun Split :: "string \<Rightarrow> char \<Rightarrow> string list" where
  "Split [] sep = [[]]"
| "Split (c # s) sep =
     (if c = sep then [] # Split s sep
      else case Split s sep of [] \<Rightarrow> [[c]] | p # ps \<Rightarrow> (c # p) # ps)"

text \<open>The white space of \<^verbatim>\<open>unicode.IsSpace\<close>, as UTF-8 sequences.\<close>

definition space_seqs :: "string list" where
  "space_seqs =
     [[CHR 0x09], [CHR 0x0A], [CHR 0x0B], [CHR 0x0C], [CHR 0x0D], [CHR 0x20],
      [CHR 0xC2, CHR 0x85], [CHR 0xC2, CHR 0xA0], [CHR 0xE1, CHR 0x9A, CHR 0x80],
      [CHR 0xE2, CHR 0x80, CHR 0x80], [CHR 0xE2, CHR 0x80, CHR 0x81],
      [CHR 0xE2, CHR 0x80, CHR 0x82], [CHR 0xE2, CHR 0x80, CHR 0x83],
      [CHR 0xE2, CHR 0x80, CHR 0x84], [CHR 0xE2, CHR 0x80, CHR 0x85],
      [CHR 0xE2, CHR 0x80, CHR 0x86], [CHR 0xE2, CHR 0x80, CHR 0x87],
      [CHR 0xE2, CHR 0x80, CHR 0x88], [CHR 0xE2, CHR 0x80, CHR 0x89],
      [CHR 0xE2, CHR 0x80, CHR 0x8A], [CHR 0xE2, CHR 0x80, CHR 0xA8],
      [CHR 0xE2, CHR 0x80, CHR 0xA9], [CHR 0xE2, CHR 0x80, CHR 0xAF],
      [CHR 0xE2, CHR 0x81, CHR 0x9F], [CHR 0xE3, CHR 0x80, CHR 0x80]]"

function trimLeftSeqs :: "string list \<Rightarrow> string \<Rightarrow> string" where
  "trimLeftSeqs seqs s =
     (case find (\<lambda>p. p \<noteq> [] \<and> HasPrefix s p) seqs of
        None \<Rightarrow> s
      | Some p \<Rightarrow> if s = [] then s else trimLeftSeqs seqs (drop (length p) s))"
  by pat_completeness auto
termination
  by (relation "measure (length \<circ> snd)") (auto simp: find_Some_iff)

declare trimLeftSeqs.simps [simp del]

definition TrimSpace :: "string \<Rightarrow> string" where
  "TrimSpace s =
     rev (trimLeftSeqs (map rev space_seqs) (rev (trimLeftSeqs space_seqs s)))"

text \<open>Printable ASCII, without the space, is not trimmed.\<close>

definition graphic :: "char \<Rightarrow> bool" where
  "graphic c \<longleftrightarrow> 33 \<le> (of_char c :: nat) \<and> (of_char c :: nat) < 127"

lemma graphic_digit: "is_digit c \<Longrightarrow> graphic c"
  by (simp add: is_digit_def graphic_def)

lemma trimLeftSeqs_graphic:
  assumes "graphic (hd s)" and "s \<noteq> []" and "list_all (\<lambda>p. p \<noteq> [] \<and> \<not> graphic (hd p)) seqs"
  shows "trimLeftSeqs seqs s = s"
proof -
  have "\<not> HasPrefix s p" if "p \<in> set seqs" for p
    using assms that by (cases s; cases p) (auto simp: list_all_iff)
  then have "find (\<lambda>p. p \<noteq> [] \<and> HasPrefix s p) seqs = None" by (auto simp: find_None_iff)
  then show ?thesis by (subst trimLeftSeqs.simps) simp
qed

lemma TrimSpace_graphic:
  assumes "graphic (hd s)" and "graphic (last s)" and "s \<noteq> []"
  shows "TrimSpace s = s"
proof -
  have "list_all (\<lambda>p. p \<noteq> [] \<and> \<not> graphic (hd p)) space_seqs"
    "list_all (\<lambda>p. p \<noteq> [] \<and> \<not> graphic (hd p)) (map rev space_seqs)"
    by (simp_all add: space_seqs_def graphic_def)
  then show ?thesis using assms by (simp add: TrimSpace_def trimLeftSeqs_graphic hd_rev)
qed

end
