(* ===== verification/Go_Json.thy ===== *)
theory Go_Json
  imports Go_Text
begin

section \<open>JSON as encoding/json reads and writes it\<close>

text \<open>
  The stores, the commands in the log and the snapshots are JSON texts made and read by Go's
  \<^verbatim>\<open>encoding/json\<close>. This theory models what the sources use of it: compact printing with
  Go's string escapes (HTML-safe, invalid UTF-8 replaced by U+FFFD), a parser that
  accepts white space, all escapes and all number forms, base64 for byte slices, and the
  decoding of an object into a struct (exact field name first, then ignoring case; unknown
  fields skipped; a \<^verbatim>\<open>null\<close> leaves a number or string alone). A number is kept as its
  text. Go's limit of 10000 nested values is left out: no text the program makes nests deeper
  than three. \<open>parse_print\<close> says that parsing a printed document gives it back.
\<close>

datatype json =
    JNull
  | JBool bool
  | JNum string
  | JStr string
  | JArr "json list"
  | JObj "(string \<times> json) list"

subsection \<open>UTF-8\<close>

abbreviation code :: "char \<Rightarrow> nat" where
  "code c \<equiv> of_char c"

definition cont :: "char \<Rightarrow> bool" where
  "cont c \<longleftrightarrow> 0x80 \<le> code c \<and> code c \<le> 0xBF"

text \<open>The length of the well-formed multi-byte sequence at the front, 0 if there is none.\<close>

fun utf8_len :: "bytes \<Rightarrow> nat" where
  "utf8_len (a # b # cs) =
     (let x = code a; y = code b in
      if 0xC2 \<le> x \<and> x \<le> 0xDF \<and> cont b then 2
      else if (x = 0xE0 \<and> 0xA0 \<le> y \<and> y \<le> 0xBF \<or> 0xE1 \<le> x \<and> x \<le> 0xEC \<and> cont b \<or>
               x = 0xED \<and> 0x80 \<le> y \<and> y \<le> 0x9F \<or> 0xEE \<le> x \<and> x \<le> 0xEF \<and> cont b)
      then (case cs of c # _ \<Rightarrow> if cont c then 3 else 0 | [] \<Rightarrow> 0)
      else if (x = 0xF0 \<and> 0x90 \<le> y \<and> y \<le> 0xBF \<or> 0xF1 \<le> x \<and> x \<le> 0xF3 \<and> cont b \<or>
               x = 0xF4 \<and> 0x80 \<le> y \<and> y \<le> 0x8F)
      then (case cs of c # d # _ \<Rightarrow> if cont c \<and> cont d then 4 else 0 | _ \<Rightarrow> 0)
      else 0)"
| "utf8_len _ = 0"

text \<open>The pieces \<^verbatim>\<open>utf8.DecodeRune\<close> cuts a byte sequence into: an ASCII byte, a
  well-formed sequence, or one invalid byte.\<close>

function runes :: "bytes \<Rightarrow> bytes list" where
  "runes [] = []"
| "runes (c # cs) =
     (let k = utf8_len (c # cs) in
      if code c < 0x80 \<or> k = 0 then [c] # runes cs
      else take k (c # cs) # runes (drop k (c # cs)))"
  by pat_completeness auto
termination
  by (relation "measure length") auto

definition valid_rune :: "bytes \<Rightarrow> bool" where
  "valid_rune ch \<longleftrightarrow>
     (length ch = 1 \<and> code (hd ch) < 0x80) \<or>
     (0x80 \<le> code (hd ch) \<and> utf8_len ch = length ch \<and> ch \<noteq> [])"

definition utf8_valid :: "bytes \<Rightarrow> bool" where
  "utf8_valid s \<longleftrightarrow> list_all valid_rune (runes s)"

definition replacement :: bytes where
  "replacement = [CHR 0xEF, CHR 0xBF, CHR 0xBD]"

lemma concat_runes [simp]: "concat (runes s) = s"
proof (induction s rule: runes.induct)
  case (2 c cs)
  then show ?case by (simp add: Let_def)
qed simp

subsection \<open>Printing strings\<close>

definition hex_digit :: "nat \<Rightarrow> char" where
  "hex_digit n = (if n < 10 then char_of (48 + n) else char_of (87 + n))"

abbreviation quote :: char where
  "quote \<equiv> CHR 0x22"

abbreviation backslash :: char where
  "backslash \<equiv> CHR 0x5C"

definition html_safe :: "char \<Rightarrow> bool" where
  "html_safe c \<longleftrightarrow> 0x20 \<le> code c \<and> code c < 0x80 \<and> c \<noteq> quote \<and> c \<noteq> backslash \<and>
     c \<noteq> CHR ''<'' \<and> c \<noteq> CHR ''>'' \<and> c \<noteq> CHR 0x26"

definition esc_ascii :: "char \<Rightarrow> string" where
  "esc_ascii c =
     (if html_safe c then [c]
      else if c = quote \<or> c = backslash then [backslash, c]
      else if c = CHR 0x08 then [backslash, CHR ''b'']
      else if c = CHR 0x0C then [backslash, CHR ''f'']
      else if c = CHR 0x0A then [backslash, CHR ''n'']
      else if c = CHR 0x0D then [backslash, CHR ''r'']
      else if c = CHR 0x09 then [backslash, CHR ''t'']
      else [backslash, CHR ''u'', CHR ''0'', CHR ''0'',
            hex_digit (code c div 16), hex_digit (code c mod 16)])"

definition esc_rune :: "bytes \<Rightarrow> string" where
  "esc_rune ch =
     (if length ch = 1 then
        (if code (hd ch) < 0x80 then esc_ascii (hd ch) else backslash # ''ufffd'')
      else if ch = [CHR 0xE2, CHR 0x80, CHR 0xA8] then backslash # ''u2028''
      else if ch = [CHR 0xE2, CHR 0x80, CHR 0xA9] then backslash # ''u2029''
      else ch)"

definition print_str :: "bytes \<Rightarrow> string" where
  "print_str s = quote # concat (map esc_rune (runes s)) @ [quote]"

subsection \<open>Printing documents\<close>

fun join :: "string \<Rightarrow> string list \<Rightarrow> string" where
  "join sep [] = []"
| "join sep [x] = x"
| "join sep (x # xs) = x @ sep @ join sep xs"

fun json_print :: "json \<Rightarrow> string" where
  "json_print JNull = ''null''"
| "json_print (JBool b) = (if b then ''true'' else ''false'')"
| "json_print (JNum n) = n"
| "json_print (JStr s) = print_str s"
| "json_print (JArr vs) = CHR ''['' # join '','' (map json_print vs) @ '']''"
| "json_print (JObj ms) =
     CHR ''{'' # join '','' (map (\<lambda>(k, v). print_str k @ CHR '':'' # json_print v) ms) @ ''}''"

subsection \<open>Parsing strings\<close>

definition hex_val :: "char \<Rightarrow> nat option" where
  "hex_val c =
     (let n = code c in
      if 48 \<le> n \<and> n \<le> 57 then Some (n - 48)
      else if 97 \<le> n \<and> n \<le> 102 then Some (n - 87)
      else if 65 \<le> n \<and> n \<le> 70 then Some (n - 55) else None)"

fun getu4 :: "bytes \<Rightarrow> (nat \<times> bytes) option" where
  "getu4 (a # b # c # d # r) =
     (case (hex_val a, hex_val b, hex_val c, hex_val d) of
        (Some w, Some x, Some y, Some z) \<Rightarrow> Some (((w * 16 + x) * 16 + y) * 16 + z, r)
      | _ \<Rightarrow> None)"
| "getu4 _ = None"

definition utf8_enc :: "nat \<Rightarrow> bytes" where
  "utf8_enc n =
     (if n < 0x80 then [char_of n]
      else if n < 0x800 then [char_of (0xC0 + n div 64), char_of (0x80 + n mod 64)]
      else if n < 0x10000 then
        [char_of (0xE0 + n div 4096), char_of (0x80 + n div 64 mod 64), char_of (0x80 + n mod 64)]
      else [char_of (0xF0 + n div 262144), char_of (0x80 + n div 4096 mod 64),
            char_of (0x80 + n div 64 mod 64), char_of (0x80 + n mod 64)])"

definition simple_escape :: "char \<Rightarrow> char option" where
  "simple_escape c =
     (if c = quote \<or> c = backslash \<or> c = CHR ''/'' then Some c
      else if c = CHR ''b'' then Some (CHR 0x08)
      else if c = CHR ''f'' then Some (CHR 0x0C)
      else if c = CHR ''n'' then Some (CHR 0x0A)
      else if c = CHR ''r'' then Some (CHR 0x0D)
      else if c = CHR ''t'' then Some (CHR 0x09) else None)"

text \<open>A four-digit escape: a surrogate must be followed by its low half, else it becomes the
  replacement character.\<close>

definition unicode_escape :: "bytes \<Rightarrow> (bytes \<times> bytes) option" where
  "unicode_escape s =
     (case getu4 s of
        None \<Rightarrow> None
      | Some (u, r) \<Rightarrow>
          if 0xD800 \<le> u \<and> u < 0xE000 then
            (case r of
               a # b # r1 \<Rightarrow>
                 (if a = backslash \<and> b = CHR ''u'' then
                    (case getu4 r1 of
                       Some (l, r2) \<Rightarrow>
                         if u < 0xDC00 \<and> 0xDC00 \<le> l \<and> l < 0xE000
                         then Some (utf8_enc ((u - 0xD800) * 1024 + (l - 0xDC00) + 0x10000), r2)
                         else Some (replacement, r)
                     | None \<Rightarrow> Some (replacement, r))
                  else Some (replacement, r))
             | _ \<Rightarrow> Some (replacement, r))
          else Some (utf8_enc u, r))"

lemma getu4_length: "getu4 s = Some (u, r) \<Longrightarrow> length r < length s"
  by (cases s rule: getu4.cases) (auto split: option.splits)

lemma unicode_escape_length: "unicode_escape s = Some (u, r) \<Longrightarrow> length r < length s"
  by (fastforce simp: unicode_escape_def dest: getu4_length split: option.splits if_splits list.splits)

text \<open>The characters up to the closing quote, unescaped, and the rest.\<close>

function parse_str :: "bytes \<Rightarrow> (bytes \<times> bytes) option" where
  "parse_str [] = None"
| "parse_str (c # cs) =
     (if c = quote then Some ([], cs)
      else if c = backslash then
        (case cs of
           [] \<Rightarrow> None
         | e # r \<Rightarrow>
             if e = CHR ''u'' then
               (case unicode_escape r of
                  None \<Rightarrow> None
                | Some (u, r') \<Rightarrow> map_option (\<lambda>(x, y). (u @ x, y)) (parse_str r'))
             else
               (case simple_escape e of
                  None \<Rightarrow> None
                | Some d \<Rightarrow> map_option (\<lambda>(x, y). (d # x, y)) (parse_str r)))
      else if code c < 0x20 then None
      else if code c < 0x80 then map_option (\<lambda>(x, y). (c # x, y)) (parse_str cs)
      else let k = utf8_len (c # cs) in
        if k = 0 then map_option (\<lambda>(x, y). (replacement @ x, y)) (parse_str cs)
        else map_option (\<lambda>(x, y). (take k (c # cs) @ x, y)) (parse_str (drop k (c # cs))))"
  by pat_completeness auto
termination
  by (relation "measure length") (auto dest: unicode_escape_length)

declare parse_str.simps(2) [simp del]

subsection \<open>Parsing documents\<close>

definition ws :: "char \<Rightarrow> bool" where
  "ws c \<longleftrightarrow> c = CHR 0x20 \<or> c = CHR 0x09 \<or> c = CHR 0x0A \<or> c = CHR 0x0D"

abbreviation skip_ws :: "bytes \<Rightarrow> bytes" where
  "skip_ws \<equiv> dropWhile ws"

definition digits1 :: "bytes \<Rightarrow> (bytes \<times> bytes) option" where
  "digits1 s =
     (case takeWhile is_digit s of [] \<Rightarrow> None | ds \<Rightarrow> Some (ds, dropWhile is_digit s))"

definition int_part :: "bytes \<Rightarrow> (bytes \<times> bytes) option" where
  "int_part s =
     (case s of [] \<Rightarrow> None
      | c # cs \<Rightarrow> if c = CHR ''0'' then Some ([c], cs) else digits1 s)"

definition frac_part :: "bytes \<Rightarrow> (bytes \<times> bytes) option" where
  "frac_part s =
     (case s of c # cs \<Rightarrow>
        if c = CHR ''.'' then map_option (\<lambda>(d, r). (c # d, r)) (digits1 cs) else Some ([], s)
      | [] \<Rightarrow> Some ([], s))"

definition exp_part :: "bytes \<Rightarrow> (bytes \<times> bytes) option" where
  "exp_part s =
     (case s of c # cs \<Rightarrow>
        if c = CHR ''e'' \<or> c = CHR ''E'' then
          (case cs of
             d # ds \<Rightarrow>
               if d = CHR ''+'' \<or> d = CHR ''-''
               then map_option (\<lambda>(x, r). (c # d # x, r)) (digits1 ds)
               else map_option (\<lambda>(x, r). (c # x, r)) (digits1 cs)
           | [] \<Rightarrow> None)
        else Some ([], s)
      | [] \<Rightarrow> Some ([], s))"

definition parse_num :: "bytes \<Rightarrow> (bytes \<times> bytes) option" where
  "parse_num s =
     (let (sg, s0) = (case s of c # cs \<Rightarrow> if c = CHR ''-'' then ([c], cs) else ([], s)
                      | [] \<Rightarrow> ([], s))
      in case int_part s0 of None \<Rightarrow> None
         | Some (i, s1) \<Rightarrow>
             (case frac_part s1 of None \<Rightarrow> None
              | Some (f, s2) \<Rightarrow>
                  (case exp_part s2 of None \<Rightarrow> None
                   | Some (e, s3) \<Rightarrow> Some (sg @ i @ f @ e, s3))))"

definition literal :: "string \<Rightarrow> json \<Rightarrow> bytes \<Rightarrow> (json \<times> bytes) option" where
  "literal w v s = (if HasPrefix s w then Some (v, drop (length w) s) else None)"

fun parse_value :: "nat \<Rightarrow> bytes \<Rightarrow> (json \<times> bytes) option"
  and parse_elems :: "nat \<Rightarrow> bytes \<Rightarrow> (json list \<times> bytes) option"
  and parse_members :: "nat \<Rightarrow> bytes \<Rightarrow> ((string \<times> json) list \<times> bytes) option"
where
  "parse_value 0 s = None"
| "parse_value (Suc n) s =
     (case skip_ws s of [] \<Rightarrow> None
      | c # cs \<Rightarrow>
          if c = CHR ''{'' then
            (case skip_ws cs of [] \<Rightarrow> None
             | d # ds \<Rightarrow> if d = CHR ''}'' then Some (JObj [], ds)
                         else map_option (\<lambda>(ms, r). (JObj ms, r)) (parse_members n (d # ds)))
          else if c = CHR ''['' then
            (case skip_ws cs of [] \<Rightarrow> None
             | d # ds \<Rightarrow> if d = CHR '']'' then Some (JArr [], ds)
                         else map_option (\<lambda>(vs, r). (JArr vs, r)) (parse_elems n (d # ds)))
          else if c = quote then map_option (\<lambda>(x, r). (JStr x, r)) (parse_str cs)
          else if c = CHR ''t'' then literal ''true'' (JBool True) (c # cs)
          else if c = CHR ''f'' then literal ''false'' (JBool False) (c # cs)
          else if c = CHR ''n'' then literal ''null'' JNull (c # cs)
          else map_option (\<lambda>(x, r). (JNum x, r)) (parse_num (c # cs)))"
| "parse_elems 0 s = None"
| "parse_elems (Suc n) s =
     (case parse_value n s of None \<Rightarrow> None
      | Some (v, r) \<Rightarrow>
          (case skip_ws r of [] \<Rightarrow> None
           | d # ds \<Rightarrow>
               if d = CHR '','' then map_option (\<lambda>(vs, r'). (v # vs, r')) (parse_elems n ds)
               else if d = CHR '']'' then Some ([v], ds) else None))"
| "parse_members 0 s = None"
| "parse_members (Suc n) s =
     (case skip_ws s of [] \<Rightarrow> None
      | c # cs \<Rightarrow>
          if c = quote then
            (case parse_str cs of None \<Rightarrow> None
             | Some (k, r0) \<Rightarrow>
                 (case skip_ws r0 of [] \<Rightarrow> None
                  | e # r1 \<Rightarrow>
                      if e = CHR '':'' then
                        (case parse_value n r1 of None \<Rightarrow> None
                         | Some (v, r) \<Rightarrow>
                             (case skip_ws r of [] \<Rightarrow> None
                              | d # ds \<Rightarrow>
                                  if d = CHR '','' then
                                    map_option (\<lambda>(ms, r'). ((k, v) # ms, r')) (parse_members n ds)
                                  else if d = CHR ''}'' then Some ([(k, v)], ds) else None))
                      else None))
          else None)"

text \<open>The fuel counts nested calls. Two per byte are enough: every second call has
  consumed a byte.\<close>

definition json_parse :: "bytes \<Rightarrow> json option" where
  "json_parse s =
     (case parse_value (2 * length s + 2) s of
        Some (v, r) \<Rightarrow> if skip_ws r = [] then Some v else None
      | None \<Rightarrow> None)"

subsection \<open>Round trips\<close>

lemma utf8_len_append: "0 < utf8_len s \<Longrightarrow> utf8_len (s @ t) = utf8_len s"
  by (cases s rule: utf8_len.cases) (auto simp: Let_def split: list.splits if_splits)

lemma utf8_len_le: "utf8_len s \<le> length s"
  by (cases s rule: utf8_len.cases) (auto simp: Let_def split: list.splits if_splits)

lemma utf8_len_not1: "utf8_len s \<noteq> Suc 0"
  by (cases s rule: utf8_len.cases) (auto simp: Let_def split: list.splits if_splits)

lemma utf8_len_ge: "0 < utf8_len (c # s) \<Longrightarrow> 0x80 \<le> code c"
  by (cases "c # s" rule: utf8_len.cases) (auto simp: Let_def split: list.splits if_splits)

lemma hex_val_hex_digit [simp]: "n < 16 \<Longrightarrow> hex_val (hex_digit n) = Some n"
  by (auto simp: hex_val_def hex_digit_def Let_def)

lemma parse_esc_ascii:
  assumes "code c < 0x80"
  shows "parse_str (esc_ascii c @ rest) = map_option (\<lambda>(x, y). (c # x, y)) (parse_str rest)"
proof -
  consider "html_safe c" | "c = quote" | "c = backslash" | "c = CHR 0x08" | "c = CHR 0x0C"
    | "c = CHR 0x0A" | "c = CHR 0x0D" | "c = CHR 0x09" | 
    (hex) "\<not> html_safe c" "c \<notin> {quote, backslash, CHR 0x08, CHR 0x0C, CHR 0x0A, CHR 0x0D, CHR 0x09}"
    by blast
  then show ?thesis
  proof cases
    case hex
    then have *: "esc_ascii c = [backslash, CHR ''u'', CHR ''0'', CHR ''0'',
            hex_digit (code c div 16), hex_digit (code c mod 16)]"
      by (simp add: esc_ascii_def)
    have "unicode_escape (CHR ''0'' # CHR ''0'' # hex_digit (code c div 16) # hex_digit (code c mod 16) # rest)
       = Some ([c], rest)"
      using assms by (simp add: unicode_escape_def utf8_enc_def hex_val_def [of "CHR ''0''"])
    with * show ?thesis by (simp add: parse_str.simps(2))
  next
    case 1 then show ?thesis by (simp add: esc_ascii_def html_safe_def parse_str.simps(2))
  qed (simp_all add: esc_ascii_def html_safe_def parse_str.simps(2) simple_escape_def)
qed

lemma runes_valid_rune:
  assumes "valid_rune ch"
  shows "parse_str (esc_rune ch @ rest) = map_option (\<lambda>(x, y). (ch @ x, y)) (parse_str rest)"
proof (cases "length ch = 1")
  case True
  then obtain c where ch: "ch = [c]" by (auto simp: length_Suc_conv)
  with assms have "code c < 0x80"
    using utf8_len_not1 [of ch] by (auto simp: valid_rune_def)
  with ch show ?thesis by (simp add: esc_rune_def parse_esc_ascii)
next
  case False
  with assms obtain c cs where ch: "ch = c # cs" "0x80 \<le> code c" "utf8_len ch = length ch"
    by (cases ch) (auto simp: valid_rune_def)
  consider "ch = [CHR 0xE2, CHR 0x80, CHR 0xA8]" | "ch = [CHR 0xE2, CHR 0x80, CHR 0xA9]"
    | (plain) "ch \<noteq> [CHR 0xE2, CHR 0x80, CHR 0xA8]" "ch \<noteq> [CHR 0xE2, CHR 0x80, CHR 0xA9]"
    by blast
  then show ?thesis
  proof cases
    case plain
    with False have "esc_rune ch = ch" by (simp add: esc_rune_def)
    moreover have "utf8_len (ch @ rest) = length ch"
      using ch utf8_len_append [of ch rest] by simp
    ultimately show ?thesis using ch by (simp add: parse_str.simps(2)) auto
  qed (simp_all add: esc_rune_def parse_str.simps(2) unicode_escape_def hex_val_def utf8_enc_def
      char_of_def bit_0)
qed

lemma parse_print_str:
  "utf8_valid s \<Longrightarrow> parse_str (concat (map esc_rune (runes s)) @ quote # rest) = Some (s, rest)"
proof -
  have "list_all valid_rune rs \<Longrightarrow>
     parse_str (concat (map esc_rune rs) @ quote # rest) = Some (concat rs, rest)" for rs
  proof (induction rs)
    case Nil
    then show ?case by (simp add: parse_str.simps(2))
  next
    case (Cons ch rs)
    then show ?case by (simp add: runes_valid_rune)
  qed
  from this [of "runes s"] show "utf8_valid s \<Longrightarrow> ?thesis" by (simp add: utf8_valid_def)
qed

lemma nat_dec_hd_zero: "0 < n \<Longrightarrow> hd (nat_dec n) \<noteq> CHR ''0''"
proof (induction n rule: nat_dec.induct)
  case (1 n)
  have z: "digit_char d = CHR ''0'' \<Longrightarrow> d < 10 \<Longrightarrow> d = 0" for d
    using of_char_digit_char [of d] by auto
  from 1 show ?case
    by (subst nat_dec.simps) (auto simp: hd_append dest: z)
qed

definition delim :: "bytes \<Rightarrow> bool" where
  "delim r \<longleftrightarrow> r = [] \<or> hd r \<in> {CHR '','', CHR '']'', CHR ''}''}"

lemma takeWhile_nat_dec:
  "delim r \<Longrightarrow> takeWhile is_digit (nat_dec n @ r) = nat_dec n"
  "delim r \<Longrightarrow> dropWhile is_digit (nat_dec n @ r) = r"
  using nat_dec_digits [of n]
  by (cases r; auto simp: delim_def takeWhile_append dropWhile_append list_all_iff)+

lemma int_part_nat_dec: "delim r \<Longrightarrow> int_part (nat_dec n @ r) = Some (nat_dec n, r)"
proof -
  assume r: "delim r"
  obtain c cs where n: "nat_dec n = c # cs" using nat_dec_Cons [of n] by blast
  show ?thesis
  proof (cases "n = 0")
    case True
    then have "nat_dec n = [CHR ''0'']" by (simp add: nat_dec.simps digit_char_def char_of_def bit_0)
    then show ?thesis by (simp add: int_part_def)
  next
    case False
    with n have "c \<noteq> CHR ''0''" using nat_dec_hd_zero [of n] by auto
    with n show ?thesis
      using takeWhile_nat_dec [OF r, of n] by (auto simp: int_part_def digits1_def)
  qed
qed

lemma frac_exp_delim [simp]:
  "delim r \<Longrightarrow> frac_part r = Some ([], r)" "delim r \<Longrightarrow> exp_part r = Some ([], r)"
  by (auto simp: frac_part_def exp_part_def delim_def split: list.splits)

lemma parse_num_Itoa: "delim r \<Longrightarrow> parse_num (Itoa i @ r) = Some (Itoa i, r)"
proof -
  assume r: "delim r"
  have "\<exists>c cs. nat_dec n = c # cs \<and> c \<noteq> CHR ''-''" for n
    using nat_dec_Cons [of n] by auto
  then obtain c cs where "nat_dec (nat i) = c # cs" "c \<noteq> CHR ''-''" by blast
  then show ?thesis
    using int_part_nat_dec [OF r, of "nat i"] int_part_nat_dec [OF r, of "nat (- i)"] r
    by (auto simp: parse_num_def Itoa_def)
qed

text \<open>The documents the program prints: decimal integers and well-formed UTF-8.\<close>

fun json_ok :: "json \<Rightarrow> bool" where
  "json_ok (JNum n) = (\<exists>i. n = Itoa i)"
| "json_ok (JStr s) = utf8_valid s"
| "json_ok (JArr vs) = (\<forall>v \<in> set vs. json_ok v)"
| "json_ok (JObj ms) = (\<forall>m \<in> set ms. utf8_valid (fst m) \<and> json_ok (snd m))"
| "json_ok v = True"

lemma Itoa_start: "\<exists>c cs. Itoa i = c # cs \<and> (is_digit c \<or> c = CHR ''-'')"
  using nat_dec_Cons [of "nat i"] by (auto simp: Itoa_def)

lemma json_print_start:
  "json_ok v \<Longrightarrow> \<exists>c cs. json_print v = c # cs \<and> \<not> ws c \<and> c \<noteq> CHR '']'' \<and> c \<noteq> CHR ''}''"
proof (cases v)
  case (JNum n)
  moreover assume "json_ok v"
  ultimately obtain i where "json_print v = Itoa i" by auto
  with Itoa_start [of i] show ?thesis by (auto simp: ws_def is_digit_def)
qed (auto simp: print_str_def ws_def)

lemma not_ws [simp]:
  "\<not> ws (CHR '','')" "\<not> ws (CHR '']'')" "\<not> ws (CHR ''}'')" "\<not> ws quote" "\<not> ws (CHR '':'')"
  "\<not> ws (CHR ''['')" "\<not> ws (CHR ''{'')"
  by (simp_all add: ws_def)

lemma delim_simps [simp]:
  "delim []" "delim (CHR '','' # r)" "delim (CHR '']'' # r)" "delim (CHR ''}'' # r)"
  by (simp_all add: delim_def)

lemma skip_ws_delim: "delim r \<Longrightarrow> skip_ws r = r"
  by (cases r) (auto simp: delim_def)

lemma parse_elems_print:
  assumes "\<And>v n rest. v \<in> set vs \<Longrightarrow> delim rest \<Longrightarrow> 2 * length (json_print v) \<le> n \<Longrightarrow>
      parse_value (Suc n) (json_print v @ rest) = Some (v, rest)"
    and "vs \<noteq> []" and "2 * length (join '','' (map json_print vs)) + 1 \<le> n"
  shows "parse_elems (Suc n) (join '','' (map json_print vs) @ CHR '']'' # rest) = Some (vs, rest)"
  using assms
proof (induction vs arbitrary: n)
  case (Cons v vs)
  then obtain m where n: "n = Suc m" by (cases n) auto
  show ?case
  proof (cases "vs = []")
    case True
    with Cons.prems n show ?thesis by simp
  next
    case False
    let ?tl = "join '','' (map json_print vs) @ CHR '']'' # rest"
    from False have j: "join '','' (map json_print (v # vs)) = json_print v @ CHR '','' # join '','' (map json_print vs)"
      by (cases vs) auto
    have "parse_value n (json_print v @ CHR '','' # ?tl) = Some (v, CHR '','' # ?tl)"
      unfolding n by (rule Cons.prems(1)) (use Cons.prems(3) j n in auto)
    moreover have "parse_elems n ?tl = Some (vs, rest)"
      unfolding n by (rule Cons.IH) (use Cons.prems False j n in auto)
    ultimately show ?thesis unfolding j by simp
  qed
qed simp

abbreviation print_member :: "string \<times> json \<Rightarrow> string" where
  "print_member \<equiv> \<lambda>(k, v). print_str k @ CHR '':'' # json_print v"

lemma parse_members_print:
  assumes "\<And>m n rest. m \<in> set ms \<Longrightarrow> delim rest \<Longrightarrow> 2 * length (json_print (snd m)) \<le> n \<Longrightarrow>
      parse_value (Suc n) (json_print (snd m) @ rest) = Some (snd m, rest)"
    and "\<And>m. m \<in> set ms \<Longrightarrow> utf8_valid (fst m)"
    and "ms \<noteq> []" and "2 * length (join '','' (map print_member ms)) + 1 \<le> n"
  shows "parse_members (Suc n) (join '','' (map print_member ms) @ CHR ''}'' # rest) = Some (ms, rest)"
  using assms
proof (induction ms arbitrary: n)
  case (Cons m ms)
  obtain k v where m: "m = (k, v)" by force
  from Cons.prems obtain n' where n: "n = Suc n'" by (cases n) auto
  from Cons.prems(2) [of m] m have k: "utf8_valid k" by simp
  show ?case
  proof (cases "ms = []")
    case True
    have "parse_value n (json_print (snd m) @ CHR ''}'' # rest) = Some (snd m, CHR ''}'' # rest)"
      unfolding n by (rule Cons.prems(1)) (use Cons.prems(4) True n m in auto)
    with True m k show ?thesis by (simp add: print_str_def parse_print_str)
  next
    case False
    let ?tl = "join '','' (map print_member ms) @ CHR ''}'' # rest"
    from False have j: "join '','' (map print_member (m # ms)) =
        print_member m @ CHR '','' # join '','' (map print_member ms)"
      by (cases ms) auto
    have "parse_value n (json_print (snd m) @ CHR '','' # ?tl) = Some (snd m, CHR '','' # ?tl)"
      unfolding n by (rule Cons.prems(1)) (use Cons.prems(4) j n m in auto)
    moreover have "parse_members n ?tl = Some (ms, rest)"
      unfolding n by (rule Cons.IH) (use Cons.prems False j n in auto)
    ultimately show ?thesis unfolding j using m k by (simp add: print_str_def parse_print_str)
  qed
qed simp


lemma join_start:
  assumes "xs \<noteq> []" and "hd xs = c # cs"
  shows "\<exists>ds. join sep xs = c # ds"
  using assms by (cases xs rule: list.exhaust; cases "tl xs") auto

lemma parse_value_JArr:
  assumes "parse_elems n (join '','' (map json_print vs) @ CHR '']'' # rest) = Some (vs, rest)"
    and "vs \<noteq> []" and "json_ok (hd vs)"
  shows "parse_value (Suc n) (json_print (JArr vs) @ rest) = Some (JArr vs, rest)"
proof -
  obtain c cs where "json_print (hd vs) = c # cs" and c: "\<not> ws c" "c \<noteq> CHR '']''"
    using json_print_start [OF assms(3)] by blast
  then obtain ds where "join '','' (map json_print vs) = c # ds"
    using join_start [of "map json_print vs" c cs] assms(2) by (auto simp: hd_map)
  with c assms(1) show ?thesis by simp
qed

lemma parse_value_JObj:
  assumes "parse_members n (join '','' (map print_member ms) @ CHR ''}'' # rest) = Some (ms, rest)"
    and "ms \<noteq> []"
  shows "parse_value (Suc n) (json_print (JObj ms) @ rest) = Some (JObj ms, rest)"
proof -
  obtain k v where "hd ms = (k, v)" by force
  then obtain cs where "hd (map print_member ms) = quote # cs"
    using assms(2) by (auto simp: hd_map print_str_def)
  then obtain ds where "join '','' (map print_member ms) = quote # ds"
    using join_start [of "map print_member ms" quote cs] assms(2) by auto
  with assms(1) show ?thesis by simp
qed

lemma parse_value_print:
  "json_ok v \<Longrightarrow> delim rest \<Longrightarrow> 2 * length (json_print v) \<le> n \<Longrightarrow>
     parse_value (Suc n) (json_print v @ rest) = Some (v, rest)"
proof (induction v arbitrary: n rest)
  case (JNum x)
  then obtain i where x: "x = Itoa i" by auto
  obtain c cs where i: "Itoa i = c # cs" and c: "is_digit c \<or> c = CHR ''-''"
    using Itoa_start [of i] by blast
  from c have "\<not> ws c" "c \<notin> {CHR ''{'', CHR ''['', quote, CHR ''t'', CHR ''f'', CHR ''n''}"
    by (auto simp: ws_def is_digit_def)
  with x i parse_num_Itoa [OF JNum.prems(2), of i] show ?case by simp
next
  case (JStr s)
  then show ?case by (simp add: print_str_def parse_print_str)
next
  case (JArr vs)
  show ?case
  proof (cases "vs = []")
    case False
    from JArr.prems(3) obtain m where n: "n = Suc m" by (cases n) auto
    show ?thesis
    proof (rule parse_value_JArr)
      show "parse_elems n (join '','' (map json_print vs) @ CHR '']'' # rest) = Some (vs, rest)"
        unfolding n
      proof (rule parse_elems_print)
        show "2 * length (join '','' (map json_print vs)) + 1 \<le> m"
          using JArr.prems(3) n by simp
      qed (use JArr False in auto)
    qed (use False JArr.prems in auto)
  qed (simp add: ws_def)
next
  case (JObj ms)
  show ?case
  proof (cases "ms = []")
    case False
    from JObj.prems(3) obtain m where n: "n = Suc m" by (cases n) auto
    show ?thesis
    proof (rule parse_value_JObj)
      show "parse_members n (join '','' (map print_member ms) @ CHR ''}'' # rest) = Some (ms, rest)"
        unfolding n
      proof (rule parse_members_print)
        show "2 * length (join '','' (map print_member ms)) + 1 \<le> m"
          using JObj.prems(3) n by simp
      next
        fix e k rest'
        assume "e \<in> set ms" and "delim rest'" and "2 * length (json_print (snd e)) \<le> k"
        then show "parse_value (Suc k) (json_print (snd e) @ rest') = Some (snd e, rest')"
          using JObj.prems(1) by (intro JObj.IH [of e]) (auto simp: prod_set_defs)
      qed (use JObj.prems False in auto)
    qed (use False in auto)
  qed (simp add: ws_def)
qed (simp_all add: literal_def ws_def)

text \<open>A printed document parses to itself.\<close>

lemma parse_print: "json_ok v \<Longrightarrow> json_parse (json_print v) = Some v"
  using parse_value_print [of v "[]" "2 * length (json_print v) + 1"]
  by (simp add: json_parse_def)

subsection \<open>The parser's fuel\<close>

lemma parse_str_length: "parse_str s = Some (x, r) \<Longrightarrow> length r < length s"
proof (induction "length s" arbitrary: s x r rule: less_induct)
  case less
  show ?case
  proof (cases s)
    case (Cons c cs)
    have IH: "parse_str t = Some (y, r) \<Longrightarrow> length t \<le> length cs \<Longrightarrow> length r \<le> length cs" for t y
      using less.hyps [of t y r] Cons by simp
    show ?thesis
      using less.prems Cons
      by (auto simp: parse_str.simps(2) Let_def less_Suc_eq_le
          split: if_splits list.splits option.splits
          dest!: unicode_escape_length dest: IH)
  qed (use less.prems in simp)
qed

lemma skip_ws_length: "length (skip_ws s) \<le> length s"
  by (rule length_dropWhile_le)

lemma digits1_length: "digits1 s = Some (d, r) \<Longrightarrow> length r < length s"
  by (cases s) (auto simp: digits1_def length_dropWhile_le le_imp_less_Suc split: list.splits if_splits)

lemma int_part_length: "int_part s = Some (d, r) \<Longrightarrow> length r < length s"
  by (auto simp: int_part_def split: list.splits if_splits dest: digits1_length)

lemma frac_exp_length:
  "frac_part s = Some (d, r) \<Longrightarrow> length r \<le> length s"
  "exp_part s = Some (d, r) \<Longrightarrow> length r \<le> length s"
  by (auto simp: frac_part_def exp_part_def split: list.splits if_splits dest!: digits1_length)

lemma parse_num_length: "parse_num s = Some (d, r) \<Longrightarrow> length r < length s"
  by (fastforce simp: parse_num_def Let_def split: list.splits if_splits option.splits
      dest!: int_part_length frac_exp_length)

lemma literal_length: "w \<noteq> [] \<Longrightarrow> s \<noteq> [] \<Longrightarrow> literal w v s = Some (x, r) \<Longrightarrow> length r < length s"
  by (auto simp: literal_def split: if_splits)

lemma skip_ws_Cons: "skip_ws s = c # cs \<Longrightarrow> length cs < length s"
  using skip_ws_length [of s] by simp

lemma parse_length_all:
  "(\<forall>s v r. parse_value n s = Some (v, r) \<longrightarrow> length r < length s) \<and>
   (\<forall>s vs r. parse_elems n s = Some (vs, r) \<longrightarrow> length r < length s) \<and>
   (\<forall>s ms r. parse_members n s = Some (ms, r) \<longrightarrow> length r < length s)"
proof (induction n)
  case (Suc n)
  then have V: "parse_value n s = Some (v, r) \<Longrightarrow> length r < length s"
    and E: "parse_elems n s = Some (vs, r) \<Longrightarrow> length r < length s"
    and M: "parse_members n s = Some (ms, r) \<Longrightarrow> length r < length s" for s v vs ms r
    by blast+
  have "length r < length s" if v: "parse_value (Suc n) s = Some (v, r)" for s v r
  proof -
    from v obtain c cs where s: "skip_ws s = c # cs" by (cases "skip_ws s") auto
    then have "length cs < length s" by (rule skip_ws_Cons)
    with v s show ?thesis
      by (auto split: if_splits list.splits
          dest!: E M parse_str_length parse_num_length literal_length [rotated 2] skip_ws_Cons)
  qed
  moreover have "length r < length s" if "parse_elems (Suc n) s = Some (vs, r)" for s vs r
    using that by (auto split: if_splits list.splits option.splits dest!: V E skip_ws_Cons)
  moreover have "length r < length s" if "parse_members (Suc n) s = Some (ms, r)" for s ms r
    using that
    by (auto split: if_splits list.splits option.splits
        dest!: V M skip_ws_Cons parse_str_length)
  ultimately show ?case by blast
qed simp

lemmas parse_length = parse_length_all [THEN conjunct1, rule_format]
  parse_length_all [THEN conjunct2, THEN conjunct1, rule_format]
  parse_length_all [THEN conjunct2, THEN conjunct2, rule_format]

text \<open>More fuel than two per byte changes nothing: the parser never runs out.\<close>

lemma parse_value_step:
  assumes E: "\<And>t. 2 * length t + 2 \<le> n \<Longrightarrow> parse_elems (Suc n) t = parse_elems n t"
    and M: "\<And>t. 2 * length t + 2 \<le> n \<Longrightarrow> parse_members (Suc n) t = parse_members n t"
    and n: "2 * length s + 1 \<le> Suc n"
  shows "parse_value (Suc (Suc n)) s = parse_value (Suc n) s"
proof (cases "skip_ws s")
  case (Cons c cs)
  have "2 * length (skip_ws cs) + 2 \<le> n"
    using n skip_ws_Cons [OF Cons] skip_ws_length [of cs] by simp
  note E = E [OF this] and M = M [OF this]
  show ?thesis
    unfolding parse_value.simps Cons list.case
    by (cases "skip_ws cs")
       (use E M in \<open>auto simp del: parse_elems.simps parse_members.simps dropWhile_eq_Nil_conv\<close>)
qed (simp del: dropWhile_eq_Nil_conv)

lemma parse_elems_step:
  assumes V: "\<And>t. 2 * length t + 1 \<le> n \<Longrightarrow> parse_value (Suc n) t = parse_value n t"
    and E: "\<And>t. 2 * length t + 2 \<le> n \<Longrightarrow> parse_elems (Suc n) t = parse_elems n t"
    and n: "2 * length s + 2 \<le> Suc n"
  shows "parse_elems (Suc (Suc n)) s = parse_elems (Suc n) s"
proof -
  from n V [of s] have v: "parse_value (Suc n) s = parse_value n s" by simp
  have "parse_elems (Suc n) ds = parse_elems n ds"
    if "parse_value n s = Some (v, r)" and "skip_ws r = d # ds" for v r d ds
    using n parse_length(1) [OF that(1)] skip_ws_Cons [OF that(2)] by (intro E) simp
  with v show ?thesis
    by (subst (1 2) parse_elems.simps)
       (auto split: option.split list.split simp del: parse_elems.simps parse_value.simps
          dropWhile_eq_Nil_conv)
qed

lemma parse_members_step:
  assumes V: "\<And>t. 2 * length t + 1 \<le> n \<Longrightarrow> parse_value (Suc n) t = parse_value n t"
    and M: "\<And>t. 2 * length t + 2 \<le> n \<Longrightarrow> parse_members (Suc n) t = parse_members n t"
    and n: "2 * length s + 2 \<le> Suc n"
  shows "parse_members (Suc (Suc n)) s = parse_members (Suc n) s"
proof -
  have v: "parse_value (Suc n) r1 = parse_value n r1"
    if "skip_ws s = c # cs" and "parse_str cs = Some (k, r0)" and "skip_ws r0 = e # r1"
    for c cs k r0 e r1
    using n skip_ws_Cons [OF that(1)] parse_str_length [OF that(2)] skip_ws_Cons [OF that(3)]
    by (intro V) simp
  have "parse_members (Suc n) ds = parse_members n ds"
    if "skip_ws s = c # cs" and "parse_str cs = Some (k, r0)" and "skip_ws r0 = e # r1"
      and "parse_value n r1 = Some (v, r)" and "skip_ws r = d # ds" for c cs k r0 e r1 v r d ds
    using n skip_ws_Cons [OF that(1)] parse_str_length [OF that(2)] skip_ws_Cons [OF that(3)]
      parse_length(1) [OF that(4)] skip_ws_Cons [OF that(5)]
    by (intro M) simp
  with v show ?thesis
    by (subst (1 2) parse_members.simps)
       (auto split: option.split list.split simp del: parse_members.simps parse_value.simps
          dropWhile_eq_Nil_conv)
qed

lemma parse_fuel_step:
  "(\<forall>s. 2 * length s + 1 \<le> n \<longrightarrow> parse_value (Suc n) s = parse_value n s) \<and>
   (\<forall>s. 2 * length s + 2 \<le> n \<longrightarrow> parse_elems (Suc n) s = parse_elems n s) \<and>
   (\<forall>s. 2 * length s + 2 \<le> n \<longrightarrow> parse_members (Suc n) s = parse_members n s)"
proof (induction n)
  case (Suc n)
  then show ?case
    by (intro conjI allI impI parse_value_step parse_elems_step parse_members_step) blast+
qed simp

lemma parse_value_fuel:
  "2 * length s + 2 \<le> n \<Longrightarrow> parse_value n s = parse_value (2 * length s + 2) s"
proof (induction n rule: nat_induct_at_least)
  case (Suc n)
  then have "2 * length s + 1 \<le> n" by simp
  with parse_fuel_step [of n] have "parse_value (Suc n) s = parse_value n s" by blast
  with Suc.IH show ?case by simp
qed simp

end
