(* ===== verification/Go_Codec.thy ===== *)
theory Go_Codec
  imports Go_Json
begin

section \<open>Byte slices and structs in JSON\<close>

text \<open>
  How \<^verbatim>\<open>encoding/json\<close> maps Go values to documents: a byte slice is a base64 string
  (\<^verbatim>\<open>null\<close> when it is nil), an object is decoded into a struct member by member.
\<close>

subsection \<open>base64.StdEncoding\<close>

definition b64_char :: "nat \<Rightarrow> char" where
  "b64_char n =
     (if n < 26 then char_of (65 + n) else if n < 52 then char_of (71 + n)
      else if n < 62 then char_of (n - 4) else if n = 62 then CHR ''+'' else CHR 0x2F)"

definition b64_val :: "char \<Rightarrow> nat option" where
  "b64_val c =
     (let n = code c in
      if 65 \<le> n \<and> n \<le> 90 then Some (n - 65) else if 97 \<le> n \<and> n \<le> 122 then Some (n - 71)
      else if 48 \<le> n \<and> n \<le> 57 then Some (n + 4) else if n = 43 then Some 62
      else if n = 47 then Some 63 else None)"

abbreviation pad :: char where
  "pad \<equiv> CHR ''=''"

fun b64enc :: "bytes \<Rightarrow> string" where
  "b64enc [] = []"
| "b64enc [a] = [b64_char (code a div 4), b64_char (code a mod 4 * 16), pad, pad]"
| "b64enc [a, b] =
     [b64_char (code a div 4), b64_char (code a mod 4 * 16 + code b div 16),
      b64_char (code b mod 16 * 4), pad]"
| "b64enc (a # b # c # r) =
     b64_char (code a div 4) # b64_char (code a mod 4 * 16 + code b div 16) #
     b64_char (code b mod 16 * 4 + code c div 64) # b64_char (code c mod 64) # b64enc r"

fun b64quads :: "string \<Rightarrow> bytes option" where
  "b64quads [] = Some []"
| "b64quads (w # x # y # z # r) =
     (case (b64_val w, b64_val x) of
        (Some p, Some q) \<Rightarrow>
          (if y = pad \<and> z = pad then
             (if r = [] then Some [char_of (p * 4 + q div 16)] else None)
           else case b64_val y of None \<Rightarrow> None
           | Some u \<Rightarrow>
             (if z = pad then
                (if r = [] then Some [char_of (p * 4 + q div 16), char_of (q mod 16 * 16 + u div 4)]
                 else None)
              else case b64_val z of None \<Rightarrow> None
              | Some v \<Rightarrow>
                  map_option (\<lambda>t. char_of (p * 4 + q div 16) # char_of (q mod 16 * 16 + u div 4) #
                                  char_of (u mod 4 * 64 + v) # t) (b64quads r)))
      | _ \<Rightarrow> None)"
| "b64quads _ = None"

text \<open>The decoder skips line breaks.\<close>

definition b64dec :: "string \<Rightarrow> bytes option" where
  "b64dec s = b64quads (filter (\<lambda>c. c \<noteq> CHR 0x0A \<and> c \<noteq> CHR 0x0D) s)"

lemma code_less [simp]: "code c < 256"
  using of_char_mod_256 [of c] by (metis mod_less_divisor zero_less_numeral)

lemma code_b64_char:
  "n < 64 \<Longrightarrow> code (b64_char n) =
     (if n < 26 then 65 + n else if n < 52 then 71 + n else if n < 62 then n - 4
      else if n = 62 then 43 else 47)"
  by (simp add: b64_char_def)

lemma b64_val_char [simp]: "n < 64 \<Longrightarrow> b64_val (b64_char n) = Some n"
  unfolding b64_val_def Let_def code_b64_char by auto

lemma code_b64_char_less [simp]: "n < 64 \<Longrightarrow> code (b64_char n) < 128"
  by (subst code_b64_char) auto

lemma b64_char_neq [simp]:
  "n < 64 \<Longrightarrow> b64_char n \<noteq> pad" "n < 64 \<Longrightarrow> b64_char n \<noteq> CHR 0x0A" "n < 64 \<Longrightarrow> b64_char n \<noteq> CHR 0x0D"
  using code_b64_char [of n] by (auto split: if_splits)

lemma code_div [simp]: "code b div 16 < 16" "code c div 64 < 4" "code a div 4 < 64"
  using code_less [of a] code_less [of b] code_less [of c]
  by (simp_all add: div_less_iff_less_mult del: code_less)

lemma b64_bounds [simp]:
  "code a mod 4 * 16 < 64" "code a mod 4 * 16 + code b div 16 < 64"
  "code b mod 16 * 4 < 64" "code b mod 16 * 4 + code c div 64 < 64"
proof -
  have "code a mod 4 \<le> 3" "code b mod 16 \<le> 15" "code b div 16 \<le> 15" "code c div 64 \<le> 3"
    using code_div(1) [of b] code_div(2) [of c] by (simp_all add: less_Suc_eq_le [symmetric] del: code_div)
  then show "code a mod 4 * 16 < 64" "code a mod 4 * 16 + code b div 16 < 64"
    "code b mod 16 * 4 < 64" "code b mod 16 * 4 + code c div 64 < 64"
    by linarith+
qed

lemma filter_b64enc: "filter (\<lambda>c. c \<noteq> CHR 0x0A \<and> c \<noteq> CHR 0x0D) (b64enc s) = b64enc s"
  by (induction s rule: b64enc.induct) auto

lemma b64_join [simp]:
  "code b div 16 div 16 = 0" "code b div 16 mod 16 = code b div 16"
  "code c div 64 div 4 = 0" "code c div 64 mod 4 = code c div 64"
  by simp_all

lemma b64quads_b64enc: "b64quads (b64enc s) = Some s"
  by (induction s rule: b64enc.induct) simp_all

lemma b64dec_b64enc [simp]: "b64dec (b64enc s) = Some s"
  by (simp add: b64dec_def filter_b64enc b64quads_b64enc)

subsection \<open>ASCII texts are well-formed\<close>

lemma runes_ascii: "list_all (\<lambda>c. code c < 0x80) s \<Longrightarrow> runes s = map (\<lambda>c. [c]) s"
  by (induction s) (auto simp: Let_def)

lemma utf8_valid_ascii: "list_all (\<lambda>c. code c < 0x80) s \<Longrightarrow> utf8_valid s"
  by (auto simp: utf8_valid_def runes_ascii valid_rune_def list_all_iff)

lemma b64enc_ascii: "list_all (\<lambda>c. code c < 0x80) (b64enc s)"
  by (induction s rule: b64enc.induct) simp_all

lemma utf8_valid_b64enc [simp]: "utf8_valid (b64enc s)"
  by (rule utf8_valid_ascii) (rule b64enc_ascii)

subsection \<open>Scalars\<close>

definition enc_int :: "int \<Rightarrow> json" where
  "enc_int i = JNum (Itoa i)"

definition enc_bytes :: "bytes \<Rightarrow> json" where
  "enc_bytes s = (if s = [] then JNull else JStr (b64enc s))"

definition dec_int :: "json \<Rightarrow> int \<Rightarrow> int option" where
  "dec_int v old = (case v of JNull \<Rightarrow> Some old | JNum t \<Rightarrow> Atoi t | _ \<Rightarrow> None)"

definition dec_string :: "json \<Rightarrow> string \<Rightarrow> string option" where
  "dec_string v old = (case v of JNull \<Rightarrow> Some old | JStr s \<Rightarrow> Some s | _ \<Rightarrow> None)"

definition dec_u8 :: "json \<Rightarrow> char option" where
  "dec_u8 v =
     (case v of JNull \<Rightarrow> Some (char_of (0::nat))
      | JNum t \<Rightarrow> (if all_digits t \<and> dec_val t < 256 then Some (char_of (dec_val t)) else None)
      | _ \<Rightarrow> None)"

fun traverse :: "('a \<Rightarrow> 'b option) \<Rightarrow> 'a list \<Rightarrow> 'b list option" where
  "traverse f [] = Some []"
| "traverse f (x # xs) =
     (case f x of None \<Rightarrow> None | Some y \<Rightarrow> map_option (\<lambda>ys. y # ys) (traverse f xs))"

definition dec_bytes :: "json \<Rightarrow> bytes option" where
  "dec_bytes v =
     (case v of JNull \<Rightarrow> Some [] | JStr s \<Rightarrow> b64dec s | JArr vs \<Rightarrow> traverse dec_u8 vs | _ \<Rightarrow> None)"

definition dec_slice :: "(json \<Rightarrow> 'a option) \<Rightarrow> json \<Rightarrow> 'a list option" where
  "dec_slice f v = (case v of JNull \<Rightarrow> Some [] | JArr vs \<Rightarrow> traverse f vs | _ \<Rightarrow> None)"

lemma dec_enc_int [simp]: "int64_range i \<Longrightarrow> dec_int (enc_int i) old = Some i"
  by (simp add: dec_int_def enc_int_def Atoi_Itoa)

lemma dec_enc_bytes [simp]: "dec_bytes (enc_bytes s) = Some s"
  by (simp add: dec_bytes_def enc_bytes_def)

lemma json_ok_enc [simp]: "json_ok (enc_int i)" "json_ok (enc_bytes s)"
  by (auto simp: enc_int_def enc_bytes_def)

lemma traverse_map: "(\<And>x. x \<in> set xs \<Longrightarrow> f (g x) = Some x) \<Longrightarrow> traverse f (map g xs) = Some xs"
  by (induction xs) auto

subsection \<open>Structs\<close>

text \<open>Names are compared after folding case; two non-ASCII letters fold to ASCII ones.\<close>

definition fold_rune :: "bytes \<Rightarrow> bytes" where
  "fold_rune ch =
     (if ch = [CHR 0xE2, CHR 0x84, CHR 0xAA] then ''K''
      else if ch = [CHR 0xC5, CHR 0xBF] then ''S''
      else if length ch = 1 \<and> 97 \<le> code (hd ch) \<and> code (hd ch) \<le> 122
      then [char_of (code (hd ch) - 32)] else ch)"

definition fold_name :: "bytes \<Rightarrow> bytes" where
  "fold_name s = concat (map fold_rune (runes s))"

definition field_of :: "string list \<Rightarrow> string \<Rightarrow> string option" where
  "field_of names k =
     (if k \<in> set names then Some k else find (\<lambda>f. fold_name f = fold_name k) names)"

fun dec_members ::
  "string list \<Rightarrow> (string \<Rightarrow> json \<Rightarrow> 's \<Rightarrow> 's option) \<Rightarrow> (string \<times> json) list \<Rightarrow> 's \<Rightarrow> 's option"
where
  "dec_members names put [] s = Some s"
| "dec_members names put ((k, v) # ms) s =
     (case field_of names k of
        None \<Rightarrow> dec_members names put ms s
      | Some f \<Rightarrow> (case put f v s of None \<Rightarrow> None | Some s' \<Rightarrow> dec_members names put ms s'))"

definition dec_struct ::
  "string list \<Rightarrow> (string \<Rightarrow> json \<Rightarrow> 's \<Rightarrow> 's option) \<Rightarrow> 's \<Rightarrow> json \<Rightarrow> 's option"
where
  "dec_struct names put zero v =
     (case v of JObj ms \<Rightarrow> dec_members names put ms zero | JNull \<Rightarrow> Some zero | _ \<Rightarrow> None)"

lemma field_of_exact [simp]: "k \<in> set names \<Longrightarrow> field_of names k = Some k"
  by (simp add: field_of_def)

text \<open>\<open>json.Unmarshal\<close> into a value decoded by \<open>f\<close>.\<close>

definition Unmarshal :: "(json \<Rightarrow> 'a option) \<Rightarrow> bytes \<Rightarrow> 'a option" where
  "Unmarshal f s = (case json_parse s of None \<Rightarrow> None | Some v \<Rightarrow> f v)"

lemma Unmarshal_print [simp]: "json_ok v \<Longrightarrow> Unmarshal f (json_print v) = f v"
  by (simp add: Unmarshal_def parse_print)

lemma Unmarshal_nil [simp]: "Unmarshal f [] = None"
  by (simp add: Unmarshal_def json_parse_def)

end
