(* ===== verification/Raft_Storage.thy ===== *)
theory Raft_Storage
  imports Raft_Types Go_Codec
begin

section \<open>The stores on disk\<close>

text \<open>
  \<^verbatim>\<open>internal/raft/meta.go\<close>, \<^verbatim>\<open>storage.go\<close> and \<^verbatim>\<open>snapshot.go\<close>: term, vote and
  peers, the log, and the snapshot, each a JSON file replaced through a temporary file and a
  rename. The contract of a durable store is a locale; the three stores are its
  interpretations.
\<close>

subsection \<open>os\<close>

datatype read_result = NotExist | ReadError | ReadOk bytes

definition os_WriteFile :: "string \<Rightarrow> bytes \<Rightarrow> fs \<Rightarrow> fs \<times> error option" where
  "os_WriteFile p b d =
     (case faults d of
        [] \<Rightarrow> (d\<lparr>files := (files d)(p \<mapsto> b)\<rparr>, None)
      | NoFault # fl \<Rightarrow> (d\<lparr>files := (files d)(p \<mapsto> b), faults := fl\<rparr>, None)
      | Fault None # fl \<Rightarrow> (d\<lparr>faults := fl\<rparr>, Some ''write failed'')
      | Fault (Some x) # fl \<Rightarrow>
          (d\<lparr>files := (files d)(p \<mapsto> x), faults := fl\<rparr>, Some ''write failed''))"

definition os_Rename :: "string \<Rightarrow> string \<Rightarrow> fs \<Rightarrow> fs \<times> error option" where
  "os_Rename p q d =
     (case files d p of
        None \<Rightarrow> (d, Some ''no such file'')
      | Some b \<Rightarrow>
          (case faults d of
             [] \<Rightarrow> (d\<lparr>files := (files d)(p := None, q \<mapsto> b)\<rparr>, None)
           | NoFault # fl \<Rightarrow> (d\<lparr>files := (files d)(p := None, q \<mapsto> b), faults := fl\<rparr>, None)
           | Fault _ # fl \<Rightarrow> (d\<lparr>faults := fl\<rparr>, Some ''rename failed'')))"

definition os_ReadFile :: "string \<Rightarrow> fs \<Rightarrow> fs \<times> read_result" where
  "os_ReadFile p d =
     (case faults d of
        Fault _ # fl \<Rightarrow> (d\<lparr>faults := fl\<rparr>, ReadError)
      | fl \<Rightarrow> (d\<lparr>faults := tl fl\<rparr>,
               case files d p of None \<Rightarrow> NotExist | Some b \<Rightarrow> ReadOk b))"

text \<open>The write to a temporary file and the rename that end every \<^verbatim>\<open>Save\<close>.\<close>

definition writeAtomic :: "string \<Rightarrow> bytes \<Rightarrow> fs \<Rightarrow> fs \<times> error option" where
  "writeAtomic path b d =
     (case os_WriteFile (path @ ''.tmp'') b d of
        (d1, Some e) \<Rightarrow> (d1, Some e)
      | (d1, None) \<Rightarrow> os_Rename (path @ ''.tmp'') path d1)"

lemma tmp_ne [simp]: "path @ ''.tmp'' \<noteq> path" "path \<noteq> path @ ''.tmp''"
  by simp_all

lemma writeAtomic_ok:
  "writeAtomic path b d = (d', None) \<Longrightarrow>
     files d' = (files d)(path @ ''.tmp'' := None, path \<mapsto> b)"
  by (auto simp: writeAtomic_def os_WriteFile_def os_Rename_def
      split: prod.splits option.splits list.splits fault.splits)

lemma writeAtomic_other:
  "q \<noteq> path \<Longrightarrow> q \<noteq> path @ ''.tmp'' \<Longrightarrow> files (fst (writeAtomic path b d)) q = files d q"
  by (auto simp: writeAtomic_def os_WriteFile_def os_Rename_def
      split: prod.splits option.splits list.splits fault.splits)

lemma writeAtomic_err:
  "writeAtomic path b d = (d', Some e) \<Longrightarrow> files d' path = files d path"
  by (auto simp: writeAtomic_def os_WriteFile_def os_Rename_def
      split: prod.splits option.splits list.splits fault.splits)

lemma writeAtomic_no_fault [simp]:
  "faults d = [] \<Longrightarrow> writeAtomic path b d =
     (d\<lparr>files := (files d)(path @ ''.tmp'' := None, path \<mapsto> b)\<rparr>, None)"
  by (simp add: writeAtomic_def os_WriteFile_def os_Rename_def fun_upd_twist)

lemma faults_writeAtomic: "set (faults (fst (writeAtomic path b d))) \<subseteq> set (faults d)"
  by (auto simp: writeAtomic_def os_WriteFile_def os_Rename_def
      split: prod.splits option.splits list.splits fault.splits)

subsection \<open>The contract of a durable store\<close>

text \<open>
  A successful save is what the next load sees; a failed save, whatever it left behind,
  does not change what a load sees.
\<close>

locale durable_store =
  fixes save :: "'a \<Rightarrow> fs \<Rightarrow> fs \<times> error option"
    and load :: "fs \<Rightarrow> 'a option"
    and ok :: "'a \<Rightarrow> bool"
  assumes save_ok: "ok x \<Longrightarrow> save x d = (d', None) \<Longrightarrow> load d' = Some x"
    and save_err: "save x d = (d', Some e) \<Longrightarrow> load d' = load d"
begin

fun saves :: "'a list \<Rightarrow> fs \<Rightarrow> fs" where
  "saves [] d = d"
| "saves (x # xs) d = saves xs (fst (save x d))"

lemma save_old_or_new:
  assumes "ok x"
  shows "load (fst (save x d)) = load d \<or> load (fst (save x d)) = Some x"
  using assms save_ok [of x d] save_err [of x d]
  by (cases "save x d"; cases "snd (save x d)") auto

text \<open>After any sequence of saves, successful or not, a load sees one of the values
  saved or the one that was there before: never a mixture.\<close>

lemma saves_old_or_one:
  "list_all ok xs \<Longrightarrow> load (saves xs d) = load d \<or> (\<exists>x \<in> set xs. load (saves xs d) = Some x)"
proof (induction xs arbitrary: d)
  case (Cons x xs)
  then have "ok x" by simp
  with save_old_or_new [of x d] Cons.IH [of "fst (save x d)"] Cons.prems show ?case by auto
qed simp

lemma saves_last_ok:
  assumes "ok x" and "snd (save x (saves xs d)) = None"
  shows "load (saves (xs @ [x]) d) = Some x"
proof -
  have "saves (xs @ [x]) d = fst (save x (saves xs d))"
    by (induction xs arbitrary: d) auto
  with assms show ?thesis using save_ok by (metis prod.collapse)
qed

end

subsection \<open>MetaStore\<close>

record metaData =
  md_Term :: int
  md_VotedFor :: string
  md_Peers :: "string list"

definition enc_metaData :: "metaData \<Rightarrow> json" where
  "enc_metaData md =
     JObj ([(''term'', enc_int (md_Term md)), (''voted_for'', JStr (md_VotedFor md))] @
           (if md_Peers md = [] then [] else [(''peers'', JArr (map JStr (md_Peers md)))]))"

definition put_metaData :: "string \<Rightarrow> json \<Rightarrow> metaData \<Rightarrow> metaData option" where
  "put_metaData f v md =
     (if f = ''term'' then map_option (\<lambda>t. md\<lparr>md_Term := t\<rparr>) (dec_int v (md_Term md))
      else if f = ''voted_for''
      then map_option (\<lambda>s. md\<lparr>md_VotedFor := s\<rparr>) (dec_string v (md_VotedFor md))
      else map_option (\<lambda>ps. md\<lparr>md_Peers := ps\<rparr>) (dec_slice (\<lambda>v. dec_string v []) v))"

definition dec_metaData :: "json \<Rightarrow> metaData option" where
  "dec_metaData =
     dec_struct [''term'', ''voted_for'', ''peers''] put_metaData
       \<lparr>md_Term = 0, md_VotedFor = [], md_Peers = []\<rparr>"

definition meta_Save :: "string \<Rightarrow> int \<Rightarrow> NodeID \<Rightarrow> NodeID list \<Rightarrow> fs \<Rightarrow> fs \<times> error option" where
  "meta_Save path trm vf ps d =
     writeAtomic path
       (json_print (enc_metaData \<lparr>md_Term = trm, md_VotedFor = vf, md_Peers = ps\<rparr>)) d"

definition meta_Load :: "string \<Rightarrow> fs \<Rightarrow> fs \<times> (int \<times> NodeID \<times> NodeID list \<times> error option)" where
  "meta_Load path d =
     (case os_ReadFile path d of
        (d', ReadOk b) \<Rightarrow>
          (case Unmarshal dec_metaData b of
             None \<Rightarrow> (d', 0, [], [], Some ''invalid JSON'')
           | Some md \<Rightarrow> (d', md_Term md, md_VotedFor md, md_Peers md, None))
      | (d', _) \<Rightarrow> (d', 0, [], [], None))"

text \<open>What a load that can read the file returns.\<close>

definition meta_view :: "string \<Rightarrow> fs \<Rightarrow> (int \<times> NodeID \<times> NodeID list) option" where
  "meta_view path d =
     (case files d path of None \<Rightarrow> None
      | Some b \<Rightarrow> map_option (\<lambda>md. (md_Term md, md_VotedFor md, md_Peers md))
                    (Unmarshal dec_metaData b))"

definition meta_ok :: "int \<times> NodeID \<times> NodeID list \<Rightarrow> bool" where
  "meta_ok = (\<lambda>(t, v, ps). int64_range t \<and> utf8_valid v \<and> list_all utf8_valid ps)"

lemma ascii_names [simp]:
  "utf8_valid ''term''" "utf8_valid ''voted_for''" "utf8_valid ''peers''"
  "utf8_valid ''index''" "utf8_valid ''data''" "utf8_valid ''created_at''"
  "utf8_valid ''last_included_index''" "utf8_valid ''last_included_term''"
  by (rule utf8_valid_ascii, simp)+

lemma json_ok_metaData:
  "meta_ok (md_Term md, md_VotedFor md, md_Peers md) \<Longrightarrow> json_ok (enc_metaData md)"
  by (auto simp: enc_metaData_def meta_ok_def list_all_iff)

lemma dec_enc_metaData:
  "meta_ok (md_Term md, md_VotedFor md, md_Peers md) \<Longrightarrow> dec_metaData (enc_metaData md) = Some md"
  by (cases md)
     (auto simp: dec_metaData_def enc_metaData_def dec_struct_def put_metaData_def meta_ok_def
       dec_string_def dec_slice_def traverse_map)

lemma meta_Load_view:
  "faults d = [] \<Longrightarrow> meta_view path d = Some (t, v, ps) \<Longrightarrow>
     snd (meta_Load path d) = (t, v, ps, None)"
  by (auto simp: meta_Load_def meta_view_def os_ReadFile_def split: option.splits)

definition meta_save1 :: "string \<Rightarrow> int \<times> NodeID \<times> NodeID list \<Rightarrow> fs \<Rightarrow> fs \<times> error option" where
  "meta_save1 path = (\<lambda>(t, v, ps). meta_Save path t v ps)"

interpretation mstore: durable_store "meta_save1 path" "meta_view path" meta_ok for path
proof unfold_locales
  fix x d d' e
  show "meta_save1 path x d = (d', Some e) \<Longrightarrow> meta_view path d' = meta_view path d"
    by (auto simp: meta_save1_def meta_Save_def meta_view_def dest: writeAtomic_err split: prod.splits)
  show "meta_ok x \<Longrightarrow> meta_save1 path x d = (d', None) \<Longrightarrow> meta_view path d' = Some x"
    by (auto simp: meta_save1_def meta_Save_def meta_view_def dec_enc_metaData json_ok_metaData
        dest!: writeAtomic_ok split: prod.splits)
qed

subsection \<open>LogStore\<close>

definition enc_logDiskEntry :: "LogEntry \<Rightarrow> json" where
  "enc_logDiskEntry e =
     JObj [(''index'', enc_int (Index e)), (''term'', enc_int (Term e)), (''data'', enc_bytes (Data e))]"

definition put_logDiskEntry :: "string \<Rightarrow> json \<Rightarrow> LogEntry \<Rightarrow> LogEntry option" where
  "put_logDiskEntry f v e =
     (if f = ''index'' then map_option (\<lambda>i. e\<lparr>Index := i\<rparr>) (dec_int v (Index e))
      else if f = ''term'' then map_option (\<lambda>t. e\<lparr>Term := t\<rparr>) (dec_int v (Term e))
      else map_option (\<lambda>b. e\<lparr>Data := b\<rparr>) (dec_bytes v))"

definition dec_logDiskEntry :: "json \<Rightarrow> LogEntry option" where
  "dec_logDiskEntry =
     dec_struct [''index'', ''term'', ''data''] put_logDiskEntry \<lparr>Index = 0, Term = 0, Data = []\<rparr>"

definition log_SaveAll :: "string \<Rightarrow> LogEntry list \<Rightarrow> fs \<Rightarrow> fs \<times> error option" where
  "log_SaveAll path es d = writeAtomic path (json_print (JArr (map enc_logDiskEntry es))) d"

definition log_Load :: "string \<Rightarrow> fs \<Rightarrow> fs \<times> (LogEntry list \<times> error option)" where
  "log_Load path d =
     (case os_ReadFile path d of
        (d', NotExist) \<Rightarrow> (d', [], None)
      | (d', ReadError) \<Rightarrow> (d', [], Some ''read failed'')
      | (d', ReadOk b) \<Rightarrow>
          (case Unmarshal (dec_slice dec_logDiskEntry) b of
             None \<Rightarrow> (d', [], Some ''invalid JSON'')
           | Some es \<Rightarrow> (d', es, None)))"

definition log_view :: "string \<Rightarrow> fs \<Rightarrow> LogEntry list option" where
  "log_view path d =
     (case files d path of None \<Rightarrow> None | Some b \<Rightarrow> Unmarshal (dec_slice dec_logDiskEntry) b)"

definition log_ok :: "LogEntry list \<Rightarrow> bool" where
  "log_ok es \<longleftrightarrow> list_all (\<lambda>e. int64_range (Index e) \<and> int64_range (Term e)) es"

lemma json_ok_log: "json_ok (JArr (map enc_logDiskEntry es))"
  by (auto simp: enc_logDiskEntry_def)

lemma dec_enc_log: "log_ok es \<Longrightarrow> dec_slice dec_logDiskEntry (JArr (map enc_logDiskEntry es)) = Some es"
  by (auto simp: dec_slice_def log_ok_def list_all_iff dec_logDiskEntry_def enc_logDiskEntry_def
      dec_struct_def put_logDiskEntry_def intro!: traverse_map)

lemma Unmarshal_log:
  "log_ok es \<Longrightarrow>
     Unmarshal (dec_slice dec_logDiskEntry) (json_print (JArr (map enc_logDiskEntry es))) = Some es"
  by (simp only: Unmarshal_print [OF json_ok_log] dec_enc_log)

lemma log_Load_view:
  "faults d = [] \<Longrightarrow> log_view path d = Some es \<Longrightarrow> snd (log_Load path d) = (es, None)"
  by (auto simp: log_Load_def log_view_def os_ReadFile_def split: option.splits)

interpretation lstore: durable_store "log_SaveAll path" "log_view path" log_ok for path
proof unfold_locales
  fix x d d' e
  show "log_SaveAll path x d = (d', Some e) \<Longrightarrow> log_view path d' = log_view path d"
    by (auto simp: log_SaveAll_def log_view_def dest: writeAtomic_err)
  show "log_ok x \<Longrightarrow> log_SaveAll path x d = (d', None) \<Longrightarrow> log_view path d' = Some x"
    by (auto simp: log_SaveAll_def log_view_def Unmarshal_log
        simp del: json_print.simps dest!: writeAtomic_ok)
qed

subsection \<open>SnapshotStore\<close>

definition enc_Snapshot :: "Snapshot \<Rightarrow> json" where
  "enc_Snapshot sn =
     JObj [(''last_included_index'', enc_int (LastIncludedIndex sn)),
           (''last_included_term'', enc_int (LastIncludedTerm sn)),
           (''created_at'', enc_int (CreatedAt sn)), (''data'', enc_bytes (SnapData sn))]"

definition put_Snapshot :: "string \<Rightarrow> json \<Rightarrow> Snapshot \<Rightarrow> Snapshot option" where
  "put_Snapshot f v sn =
     (if f = ''last_included_index''
      then map_option (\<lambda>i. sn\<lparr>LastIncludedIndex := i\<rparr>) (dec_int v (LastIncludedIndex sn))
      else if f = ''last_included_term''
      then map_option (\<lambda>t. sn\<lparr>LastIncludedTerm := t\<rparr>) (dec_int v (LastIncludedTerm sn))
      else if f = ''created_at''
      then map_option (\<lambda>t. sn\<lparr>CreatedAt := t\<rparr>) (dec_int v (CreatedAt sn))
      else map_option (\<lambda>b. sn\<lparr>SnapData := b\<rparr>) (dec_bytes v))"

definition dec_Snapshot :: "json \<Rightarrow> Snapshot option" where
  "dec_Snapshot =
     dec_struct [''last_included_index'', ''last_included_term'', ''created_at'', ''data'']
       put_Snapshot \<lparr>LastIncludedIndex = 0, LastIncludedTerm = 0, CreatedAt = 0, SnapData = []\<rparr>"

definition snap_Save :: "string \<Rightarrow> Snapshot \<Rightarrow> fs \<Rightarrow> fs \<times> error option" where
  "snap_Save path sn d = writeAtomic path (json_print (enc_Snapshot sn)) d"

definition snap_Load :: "string \<Rightarrow> fs \<Rightarrow> fs \<times> (Snapshot option \<times> error option)" where
  "snap_Load path d =
     (case os_ReadFile path d of
        (d', NotExist) \<Rightarrow> (d', None, None)
      | (d', ReadError) \<Rightarrow> (d', None, Some ''read failed'')
      | (d', ReadOk b) \<Rightarrow>
          (case Unmarshal dec_Snapshot b of
             None \<Rightarrow> (d', None, Some ''invalid JSON'')
           | Some sn \<Rightarrow> (d', Some sn, None)))"

definition snap_view :: "string \<Rightarrow> fs \<Rightarrow> Snapshot option" where
  "snap_view path d =
     (case files d path of None \<Rightarrow> None | Some b \<Rightarrow> Unmarshal dec_Snapshot b)"

definition snap_ok :: "Snapshot \<Rightarrow> bool" where
  "snap_ok sn \<longleftrightarrow> int64_range (LastIncludedIndex sn) \<and> int64_range (LastIncludedTerm sn) \<and>
     int64_range (CreatedAt sn)"

lemma json_ok_Snapshot: "json_ok (enc_Snapshot sn)"
  by (auto simp: enc_Snapshot_def)

lemma dec_enc_Snapshot: "snap_ok sn \<Longrightarrow> dec_Snapshot (enc_Snapshot sn) = Some sn"
  by (simp add: dec_Snapshot_def enc_Snapshot_def dec_struct_def put_Snapshot_def snap_ok_def)

lemma snap_Load_view:
  "faults d = [] \<Longrightarrow> snap_view path d = Some sn \<Longrightarrow> snd (snap_Load path d) = (Some sn, None)"
  by (auto simp: snap_Load_def snap_view_def os_ReadFile_def split: option.splits)

interpretation sstore: durable_store "snap_Save path" "snap_view path" snap_ok for path
proof unfold_locales
  fix x d d' e
  show "snap_Save path x d = (d', Some e) \<Longrightarrow> snap_view path d' = snap_view path d"
    by (auto simp: snap_Save_def snap_view_def dest: writeAtomic_err)
  show "snap_ok x \<Longrightarrow> snap_Save path x d = (d', None) \<Longrightarrow> snap_view path d' = Some x"
    by (auto simp: snap_Save_def snap_view_def dec_enc_Snapshot json_ok_Snapshot
        dest!: writeAtomic_ok)
qed

subsection \<open>The files of a node\<close>

definition metaPath :: "raft \<Rightarrow> string" where
  "metaPath r = dataDir r @ ''/raft-meta.json''"

definition logPath :: "raft \<Rightarrow> string" where
  "logPath r = dataDir r @ ''/raft-log.json''"

definition snapPath :: "raft \<Rightarrow> string" where
  "snapPath r = dataDir r @ ''/raft-snap.json''"

text \<open>The handlers' calls \<^verbatim>\<open>_ = r.meta.Save(r.term, r.votedFor, r.peers)\<close> and
  \<^verbatim>\<open>r.logStore.SaveAll(r.log)\<close>: an error is logged or dropped.\<close>

definition saveMeta :: "raft \<Rightarrow> raft" where
  "saveMeta r = r\<lparr>fs_r := fst (meta_Save (metaPath r) (term_r r) (votedFor r) (peers r) (fs_r r))\<rparr>"

definition saveLog :: "raft \<Rightarrow> raft" where
  "saveLog r = r\<lparr>fs_r := fst (log_SaveAll (logPath r) (log_r r) (fs_r r))\<rparr>"

definition saveLogErr :: "raft \<Rightarrow> error option" where
  "saveLogErr r = snd (log_SaveAll (logPath r) (log_r r) (fs_r r))"

lemma path_distinct [simp]:
  "metaPath r \<noteq> logPath r" "metaPath r \<noteq> snapPath r" "logPath r \<noteq> snapPath r"
  "metaPath r \<noteq> logPath r @ ''.tmp''" "metaPath r \<noteq> snapPath r @ ''.tmp''"
  "logPath r \<noteq> metaPath r @ ''.tmp''" "logPath r \<noteq> snapPath r @ ''.tmp''"
  "snapPath r \<noteq> metaPath r @ ''.tmp''" "snapPath r \<noteq> logPath r @ ''.tmp''"
  by (simp_all add: metaPath_def logPath_def snapPath_def)

text \<open>The metadata file is replaced atomically. Whatever the write and the rename do
  (fail, or leave part of the text behind), a node that reads the file afterwards sees the
  term, vote and peers of before the save or the new ones, never a mixture or a damaged
  file; and when \<^verbatim>\<open>Save\<close> reports success it sees the new ones.\<close>

theorem meta_Save_atomic:
  assumes "meta_ok (t, v, ps)"
  shows "(meta_view path (fst (meta_Save path t v ps d)) = meta_view path d \<or>
          meta_view path (fst (meta_Save path t v ps d)) = Some (t, v, ps)) \<and>
         (snd (meta_Save path t v ps d) = None \<longrightarrow>
          meta_view path (fst (meta_Save path t v ps d)) = Some (t, v, ps))"
  using mstore.save_old_or_new [OF assms, of path d] mstore.save_ok [OF assms, of path d]
  by (auto simp: meta_save1_def prod_eq_iff)

lemma int64_small [simp]: "int64_range 0" "int64_range 1" "int64_range (numeral n)
   \<longleftrightarrow> (numeral n :: int) < 2 ^ 63"
  by (simp_all add: int64_range_def)

theorem meta_Save_atomic_witness:
  "meta_ok (7, ''n1'', [''n2'']) \<and>
   meta_view ''m'' (fst (meta_Save ''m'' 7 ''n1'' [''n2'']
     \<lparr>files = Map.empty, faults = [NoFault, NoFault]\<rparr>)) = Some (7, ''n1'', [''n2''])"
proof -
  have ok: "meta_ok (7, ''n1'', [''n2''])"
    by (simp add: meta_ok_def utf8_valid_ascii)
  let ?d = "\<lparr>files = Map.empty, faults = [NoFault, NoFault]\<rparr>"
  have "snd (meta_Save ''m'' 7 ''n1'' [''n2''] ?d) = None"
    by (simp add: meta_Save_def writeAtomic_def os_WriteFile_def os_Rename_def)
  with ok meta_Save_atomic [OF ok, of "''m''" ?d] show ?thesis by blast
qed

text \<open>A log saved without an error is read back entry by entry, with its indexes,
  terms and data, by the next \<^verbatim>\<open>Load\<close>; a save that reports an error leaves what a load
  returns unchanged.\<close>

theorem log_SaveAll_Load:
  assumes "log_ok es" and "log_SaveAll path es d = (d', err)"
  shows "case err of
           None \<Rightarrow> faults d' = [] \<longrightarrow> snd (log_Load path d') = (es, None)
         | Some e \<Rightarrow> log_view path d' = log_view path d"
  using assms lstore.save_ok [of es path d d'] lstore.save_err [of path es d d']
  by (auto intro: log_Load_view split: option.split)

theorem log_SaveAll_Load_witness:
  "let es = [\<lparr>Index = 1, Term = 1, Data = ''x''\<rparr>]; d = \<lparr>files = Map.empty, faults = []\<rparr> in
   log_ok es \<and> snd (log_Load ''l'' (fst (log_SaveAll ''l'' es d))) = (es, None)"
proof -
  let ?es = "[\<lparr>Index = 1, Term = 1, Data = ''x''\<rparr>]" and ?d = "\<lparr>files = Map.empty, faults = []\<rparr>"
  have ok: "log_ok ?es" by (simp add: log_ok_def)
  have "log_SaveAll ''l'' ?es ?d = (fst (log_SaveAll ''l'' ?es ?d), None)"
    "faults (fst (log_SaveAll ''l'' ?es ?d)) = []"
    by (simp_all add: log_SaveAll_def del: json_print.simps)
  with ok log_SaveAll_Load [OF ok] show ?thesis by fastforce
qed

end
