(* ===== verification/Raft_Election.thy ===== *)
theory Raft_Election
  imports Raft_Log Raft_Storage
begin

section \<open>Elections\<close>

text \<open>
  The election side of \<^verbatim>\<open>raft.go\<close> and the \<^verbatim>\<open>RequestVote\<close> and \<^verbatim>\<open>TimeoutNow\<close> handlers of
  \<^verbatim>\<open>rpc.go\<close>: queries, the election timer, starting an election, counting votes, becoming
  leader, granting votes. The contract every handler keeps (terms never go back, a vote is
  never changed within a term) is the locale \<open>vote_keeper\<close>.
\<close>

subsection \<open>Queries\<close>

definition IsLeader :: "raft \<Rightarrow> bool" where
  "IsLeader r \<longleftrightarrow> state r = Leader \<and> \<not> removedFromCluster r"

definition LeaderID :: "raft \<Rightarrow> NodeID" where
  "LeaderID r = leader r"

definition isKnownNode :: "raft \<Rightarrow> NodeID \<Rightarrow> bool" where
  "isKnownNode r i =
     (if i = [] then False else if i = id_r r then True else List.member (peers r) i)"

text \<open>Times are nanoseconds; \<open>maxLeaseAge\<close> is \<^verbatim>\<open>4 * time.Second\<close>.\<close>

definition maxLeaseAge :: time where
  "maxLeaseAge = 4000000000"

definition HasReadLease :: "time \<Rightarrow> raft \<Rightarrow> bool" where
  "HasReadLease now r =
     (if removedFromCluster r then False
      else if state r = Leader then True
      else if state r = Follower \<and> leader r \<noteq> [] then now - electionReset r < maxLeaseAge
      else False)"

definition GetPeers :: "raft \<Rightarrow> NodeID list" where
  "GetPeers r = peers r"

record Status =
  st_ID :: string
  st_State :: string
  st_Term :: int
  st_LeaderID :: string
  st_CommitIndex :: int
  st_LastApplied :: int
  st_LogLength :: int

definition getStatus :: "raft \<Rightarrow> Status" where
  "getStatus r =
     \<lparr>st_ID = id_r r, st_State = RaftState_String (state r), st_Term = term_r r,
      st_LeaderID = leader r, st_CommitIndex = commitIndex r, st_LastApplied = lastApplied r,
      st_LogLength = int (length (log_r r))\<rparr>"

subsection \<open>Election logic\<close>

text \<open>\<open>n\<close> is the result of \<^verbatim>\<open>rand.Intn(1500)\<close>; the timeout is in milliseconds.\<close>

definition randomElectionTimeout :: "nat \<Rightarrow> time" where
  "randomElectionTimeout n = (1500 + int n) * 1000000"

definition majority :: "raft \<Rightarrow> int" where
  "majority r = (let total = int (length (peers r)) + 1 in total div 2 + 1)"

definition becomeLeaderLocked :: "raft \<Rightarrow> raft \<times> effect list" where
  "becomeLeaderLocked r =
     (let lastIdx = lastLogIndex r + 1 in
      (r\<lparr>state := Leader, leader := id_r r,
         nextIndex := set_all (peers r) lastIdx (nextIndex r),
         matchIndex := set_all (peers r) (logBaseIndex r) (matchIndex r)\<rparr>,
       [GoHeartbeatLoop]))"

definition startElectionLocked :: "time \<Rightarrow> raft \<Rightarrow> raft \<times> effect list" where
  "startElectionLocked now r =
     (if removedFromCluster r then (r, [])
      else
        let r1 = saveMeta (r\<lparr>state := Candidate, term_r := term_r r + 1, votedFor := id_r r\<rparr>);
            r2 = r1\<lparr>electionReset := now, votes := 1\<rparr>
        in if majority r2 \<le> votes r2 then becomeLeaderLocked r2
           else (r2, [GoBroadcastRequestVote (term_r r2)]))"

text \<open>One tick of \<open>runElectionTimer\<close>: the pair is the current timeout and the node.\<close>

definition electionTick :: "time \<Rightarrow> nat \<Rightarrow> time \<times> raft \<Rightarrow> (time \<times> raft) \<times> effect list" where
  "electionTick now rnd = (\<lambda>(timeout, r).
     if removedFromCluster r then ((timeout, r), [])
     else if state r = Leader then ((timeout, r), [])
     else if timeout \<le> now - electionReset r then
       (let (r', fx) = startElectionLocked now r in ((randomElectionTimeout rnd, r'), fx))
     else ((timeout, r), []))"

definition handleVoteResponse :: "RequestVoteResponse \<Rightarrow> raft \<Rightarrow> raft \<times> effect list" where
  "handleVoteResponse resp r =
     (if term_r r < int_of32 (rvr_Term resp)
      then (r\<lparr>term_r := int_of32 (rvr_Term resp), state := Follower, votedFor := []\<rparr>, [])
      else if state r \<noteq> Candidate then (r, [])
      else if rvr_VoteGranted resp then
        (let r1 = r\<lparr>votes := votes r + 1\<rparr> in
         if majority r1 \<le> votes r1 then becomeLeaderLocked r1 else (r1, []))
      else (r, []))"

text \<open>The update that answers a message with a newer term.\<close>

definition adoptTerm :: "int \<Rightarrow> raft \<Rightarrow> raft" where
  "adoptTerm t r = saveMeta (r\<lparr>term_r := t, votedFor := [], state := Follower\<rparr>)"

definition RequestVote :: "time \<Rightarrow> RequestVoteRequest \<Rightarrow> raft \<Rightarrow> raft \<times> RequestVoteResponse" where
  "RequestVote now req r =
     (let resp = \<lparr>rvr_Term = int32 (term_r r), rvr_VoteGranted = False\<rparr> in
      if \<not> isKnownNode r (rv_CandidateId req) then (r, resp)
      else if int_of32 (rv_Term req) < term_r r then (r, resp)
      else
        let r1 = (if term_r r < int_of32 (rv_Term req)
                  then adoptTerm (int_of32 (rv_Term req)) r else r);
            myLastIndex = lastLogIndex r1;
            myLastTerm = lastLogTerm r1;
            candidateLastTerm = int_of32 (rv_LastLogTerm req);
            candidateLastIndex = int_of32 (rv_LastLogIndex req);
            upToDate = (myLastTerm < candidateLastTerm \<or>
                        candidateLastTerm = myLastTerm \<and> myLastIndex \<le> candidateLastIndex)
        in if \<not> upToDate then (r1, resp)
           else if votedFor r1 = [] \<or> votedFor r1 = rv_CandidateId req
           then (saveMeta (r1\<lparr>votedFor := rv_CandidateId req, electionReset := now\<rparr>),
                 resp\<lparr>rvr_VoteGranted := True\<rparr>)
           else (r1, resp))"

definition TimeoutNow ::
  "time \<Rightarrow> TimeoutNowRequest \<Rightarrow> raft \<Rightarrow> raft \<times> TimeoutNowResponse \<times> effect list"
where
  "TimeoutNow now req r =
     (let resp = \<lparr>tnr_Term = int32 (term_r r), tnr_Success = False\<rparr> in
      if tn_LeaderId req \<noteq> leader r then (r, resp, [])
      else if int_of32 (tn_Term req) < term_r r then (r, resp, [])
      else
        let r1 = (if term_r r < int_of32 (tn_Term req)
                  then adoptTerm (int_of32 (tn_Term req)) r else r);
            (r2, fx) = startElectionLocked now r1
        in (r2, \<lparr>tnr_Term = int32 (term_r r2), tnr_Success = True\<rparr>, fx))"

subsection \<open>Frames\<close>

lemma saveMeta_frame [simp, frame_simps]:
  "id_r (saveMeta r) = id_r r" "peers (saveMeta r) = peers r" "state (saveMeta r) = state r"
  "term_r (saveMeta r) = term_r r" "votes (saveMeta r) = votes r"
  "votedFor (saveMeta r) = votedFor r" "electionReset (saveMeta r) = electionReset r"
  "log_r (saveMeta r) = log_r r" "commitIndex (saveMeta r) = commitIndex r"
  "lastApplied (saveMeta r) = lastApplied r" "nextIndex (saveMeta r) = nextIndex r"
  "matchIndex (saveMeta r) = matchIndex r" "leader (saveMeta r) = leader r"
  "logBaseIndex (saveMeta r) = logBaseIndex r" "snapshot (saveMeta r) = snapshot r"
  "removedFromCluster (saveMeta r) = removedFromCluster r" "waiters (saveMeta r) = waiters r"
  "applyCh (saveMeta r) = applyCh r" "closed (saveMeta r) = closed r"
  "dataDir (saveMeta r) = dataDir r" "nextChan (saveMeta r) = nextChan r"
  by (simp_all add: saveMeta_def)

lemma saveLog_frame [simp, frame_simps]:
  "id_r (saveLog r) = id_r r" "peers (saveLog r) = peers r" "state (saveLog r) = state r"
  "term_r (saveLog r) = term_r r" "votes (saveLog r) = votes r"
  "votedFor (saveLog r) = votedFor r" "electionReset (saveLog r) = electionReset r"
  "log_r (saveLog r) = log_r r" "commitIndex (saveLog r) = commitIndex r"
  "lastApplied (saveLog r) = lastApplied r" "nextIndex (saveLog r) = nextIndex r"
  "matchIndex (saveLog r) = matchIndex r" "leader (saveLog r) = leader r"
  "logBaseIndex (saveLog r) = logBaseIndex r" "snapshot (saveLog r) = snapshot r"
  "removedFromCluster (saveLog r) = removedFromCluster r" "waiters (saveLog r) = waiters r"
  "applyCh (saveLog r) = applyCh r" "closed (saveLog r) = closed r"
  "dataDir (saveLog r) = dataDir r" "nextChan (saveLog r) = nextChan r"
  by (simp_all add: saveLog_def)

lemma adoptTerm_frame [simp, frame_simps]:
  "id_r (adoptTerm t r) = id_r r" "peers (adoptTerm t r) = peers r"
  "state (adoptTerm t r) = Follower" "term_r (adoptTerm t r) = t" "votedFor (adoptTerm t r) = []"
  "log_r (adoptTerm t r) = log_r r" "logBaseIndex (adoptTerm t r) = logBaseIndex r"
  "commitIndex (adoptTerm t r) = commitIndex r" "lastApplied (adoptTerm t r) = lastApplied r"
  "removedFromCluster (adoptTerm t r) = removedFromCluster r" "leader (adoptTerm t r) = leader r"
  "electionReset (adoptTerm t r) = electionReset r" "snapshot (adoptTerm t r) = snapshot r"
  "nextIndex (adoptTerm t r) = nextIndex r" "matchIndex (adoptTerm t r) = matchIndex r"
  "applyCh (adoptTerm t r) = applyCh r" "waiters (adoptTerm t r) = waiters r"
  "closed (adoptTerm t r) = closed r" "dataDir (adoptTerm t r) = dataDir r"
  "nextChan (adoptTerm t r) = nextChan r"
  by (simp_all add: adoptTerm_def)

lemma becomeLeader_frame [simp, frame_simps]:
  "id_r (fst (becomeLeaderLocked r)) = id_r r" "peers (fst (becomeLeaderLocked r)) = peers r"
  "state (fst (becomeLeaderLocked r)) = Leader" "term_r (fst (becomeLeaderLocked r)) = term_r r"
  "votes (fst (becomeLeaderLocked r)) = votes r" "fs_r (fst (becomeLeaderLocked r)) = fs_r r"
  "votedFor (fst (becomeLeaderLocked r)) = votedFor r" "log_r (fst (becomeLeaderLocked r)) = log_r r"
  "logBaseIndex (fst (becomeLeaderLocked r)) = logBaseIndex r"
  "commitIndex (fst (becomeLeaderLocked r)) = commitIndex r"
  "lastApplied (fst (becomeLeaderLocked r)) = lastApplied r"
  "removedFromCluster (fst (becomeLeaderLocked r)) = removedFromCluster r"
  "electionReset (fst (becomeLeaderLocked r)) = electionReset r"
  "snapshot (fst (becomeLeaderLocked r)) = snapshot r"
  "leader (fst (becomeLeaderLocked r)) = id_r r"
  "applyCh (fst (becomeLeaderLocked r)) = applyCh r"
  by (simp_all add: becomeLeaderLocked_def Let_def)

lemma wf_log_cong:
  "log_r r' = log_r r \<Longrightarrow> logBaseIndex r' = logBaseIndex r \<Longrightarrow> wf_log r' = wf_log r"
  by (simp add: wf_log_def)

lemma lastLog_cong:
  "log_r r' = log_r r \<Longrightarrow> logBaseIndex r' = logBaseIndex r \<Longrightarrow>
     lastLogIndex r' = lastLogIndex r \<and> lastLogTerm r' = lastLogTerm r"
  by (simp add: lastLogIndex_def lastLogTerm_def)

lemma entryAt_cong:
  "log_r r' = log_r r \<Longrightarrow> logBaseIndex r' = logBaseIndex r \<Longrightarrow> entryAt r' i = entryAt r i"
  by (simp add: entryAt_eq)

lemma majority_cong: "peers r' = peers r \<Longrightarrow> majority r' = majority r"
  by (simp add: majority_def)

subsection \<open>Log positions\<close>

text \<open>The up-to-date rule compares the last entries of two logs: by term, then by index.\<close>

datatype logpos = LogPos (posTerm: int) (posIndex: int)

instantiation logpos :: linorder
begin

definition less_eq_logpos :: "logpos \<Rightarrow> logpos \<Rightarrow> bool" where
  "p \<le> q \<longleftrightarrow> posTerm p < posTerm q \<or> posTerm p = posTerm q \<and> posIndex p \<le> posIndex q"

definition less_logpos :: "logpos \<Rightarrow> logpos \<Rightarrow> bool" where
  "p < q \<longleftrightarrow> posTerm p < posTerm q \<or> posTerm p = posTerm q \<and> posIndex p < posIndex q"

instance
proof
  fix p q s :: logpos
  show "p < q \<longleftrightarrow> p \<le> q \<and> \<not> q \<le> p" by (auto simp: less_eq_logpos_def less_logpos_def)
  show "p \<le> p" by (simp add: less_eq_logpos_def)
  show "p \<le> q \<Longrightarrow> q \<le> s \<Longrightarrow> p \<le> s" by (auto simp: less_eq_logpos_def)
  show "p \<le> q \<Longrightarrow> q \<le> p \<Longrightarrow> p = q" by (cases p; cases q) (auto simp: less_eq_logpos_def)
  show "p \<le> q \<or> q \<le> p" by (auto simp: less_eq_logpos_def)
qed

end

definition lastPos :: "raft \<Rightarrow> logpos" where
  "lastPos r = LogPos (lastLogTerm r) (lastLogIndex r)"

definition candidatePos :: "RequestVoteRequest \<Rightarrow> logpos" where
  "candidatePos req = LogPos (int_of32 (rv_LastLogTerm req)) (int_of32 (rv_LastLogIndex req))"

lemma lastPos_cong: "log_r r' = log_r r \<Longrightarrow> logBaseIndex r' = logBaseIndex r \<Longrightarrow> lastPos r' = lastPos r"
  using lastLog_cong [of r' r] by (simp add: lastPos_def)

lemma candidatePos_cases:
  "(lastLogTerm r < int_of32 (rv_LastLogTerm req) \<or>
    int_of32 (rv_LastLogTerm req) = lastLogTerm r \<and> lastLogIndex r \<le> int_of32 (rv_LastLogIndex req))
   \<longleftrightarrow> lastPos r \<le> candidatePos req"
  by (auto simp: lastPos_def candidatePos_def less_eq_logpos_def)

lemma RequestVote_alt:
  "RequestVote now req r =
     (let resp = \<lparr>rvr_Term = int32 (term_r r), rvr_VoteGranted = False\<rparr>;
          t = int_of32 (rv_Term req); c = rv_CandidateId req;
          r1 = (if term_r r < t then adoptTerm t r else r)
      in if \<not> isKnownNode r c \<or> t < term_r r then (r, resp)
         else if lastPos r \<le> candidatePos req \<and> (term_r r < t \<or> votedFor r = [] \<or> votedFor r = c)
         then (saveMeta (r1\<lparr>votedFor := c, electionReset := now\<rparr>), resp\<lparr>rvr_VoteGranted := True\<rparr>)
         else (r1, resp))"
  unfolding RequestVote_def Let_def candidatePos_cases
  using lastPos_cong [of "adoptTerm (int_of32 (rv_Term req)) r" r] by auto

subsection \<open>Granting votes\<close>

text \<open>C4: a vote is granted exactly when the candidate is a member of the voter's
  configuration, its term is not behind the voter's, its log is at least as up to date, and
  the voter has not voted for somebody else in that term.\<close>

theorem RequestVote_grants_iff:
  "rvr_VoteGranted (snd (RequestVote now req r)) \<longleftrightarrow>
     isKnownNode r (rv_CandidateId req) \<and> term_r r \<le> int_of32 (rv_Term req) \<and>
     lastPos r \<le> candidatePos req \<and>
     (term_r r < int_of32 (rv_Term req) \<or> votedFor r = [] \<or> votedFor r = rv_CandidateId req)"
  by (auto simp: RequestVote_alt Let_def)

lemma RequestVote_granted_state:
  assumes "rvr_VoteGranted (snd (RequestVote now req r))"
  shows "fst (RequestVote now req r) =
           saveMeta ((if term_r r < int_of32 (rv_Term req) then adoptTerm (int_of32 (rv_Term req)) r
                      else r)\<lparr>votedFor := rv_CandidateId req, electionReset := now\<rparr>)"
    and "term_r (fst (RequestVote now req r)) = int_of32 (rv_Term req)"
    and "votedFor (fst (RequestVote now req r)) = rv_CandidateId req"
  using assms by (auto simp: RequestVote_alt Let_def split: if_splits)

lemma no_fault_saveMeta [simp]: "faults (fs_r r) = [] \<Longrightarrow> faults (fs_r (saveMeta r)) = []"
  by (simp add: saveMeta_def meta_Save_def)

lemma no_fault_saveLog [simp]: "faults (fs_r r) = [] \<Longrightarrow> faults (fs_r (saveLog r)) = []"
  by (simp add: saveLog_def log_SaveAll_def del: json_print.simps)

lemma no_fault_adoptTerm [simp]: "faults (fs_r r) = [] \<Longrightarrow> faults (fs_r (adoptTerm t r)) = []"
  by (simp add: adoptTerm_def)

lemma saveMeta_view:
  assumes "faults (fs_r r) = []" and "meta_ok (term_r r, votedFor r, peers r)"
  shows "meta_view (metaPath (saveMeta r)) (fs_r (saveMeta r)) = Some (term_r r, votedFor r, peers r)"
proof -
  have "metaPath (saveMeta r) = metaPath r" by (simp add: metaPath_def)
  moreover have "snd (meta_Save (metaPath r) (term_r r) (votedFor r) (peers r) (fs_r r)) = None"
    using assms(1) by (simp add: meta_Save_def)
  ultimately show ?thesis
    using mstore.save_ok [OF assms(2), of "metaPath r" "fs_r r"]
    by (simp add: saveMeta_def meta_save1_def prod_eq_iff)
qed

lemma int64_int_of32 [simp]: "int64_range (int_of32 w)"
  using fits32_int_of32 [of w] by (simp add: fits32_def int64_range_def)


text \<open>A request from a member with a newer term and a longer log, for concrete instances.\<close>

definition voteReq :: RequestVoteRequest where
  "voteReq = \<lparr>rv_CandidateId = ''n2'', rv_Term = 3, rv_LastLogIndex = 6, rv_LastLogTerm = 2\<rparr>"

lemma voteReq_granted: "rvr_VoteGranted (snd (RequestVote 9 voteReq node4))"
  by (simp add: RequestVote_alt Let_def voteReq_def node4_def newRaft_def isKnownNode_def
      lastPos_def candidatePos_def lastLogTerm_def lastLogIndex_def int_of32_def less_eq_logpos_def)


subsection \<open>Winning an election\<close>

lemma majority_double: "int (length (peers r)) + 1 < 2 * majority r"
  by (simp add: majority_def)

lemma majority_le_one: "majority r \<le> 1 \<longleftrightarrow> peers r = []"
proof
  assume "majority r \<le> 1"
  then have "length (peers r) = 0" unfolding majority_def Let_def by presburger
  then show "peers r = []" by simp
qed (simp add: majority_def)

lemma majority_pos: "1 \<le> majority r"
  by (simp add: majority_def)

text \<open>A node becomes leader only by counting a majority of its configuration (itself
  included): when the answer to a vote request or the start of an election turns a node into
  a leader, its vote counter has reached more than half of the members, and the node was a
  candidate who keeps its term.\<close>

theorem leader_needs_majority:
  "(state r \<noteq> Leader \<and> state (fst (handleVoteResponse resp r)) = Leader \<longrightarrow>
      state r = Candidate \<and> rvr_VoteGranted resp \<and>
      int (length (peers r)) + 1 < 2 * votes (fst (handleVoteResponse resp r)) \<and>
      term_r (fst (handleVoteResponse resp r)) = term_r r) \<and>
   (state (fst (startElectionLocked now r)) = Leader \<and> state r \<noteq> Leader \<longrightarrow>
      peers r = [] \<and> term_r (fst (startElectionLocked now r)) = term_r r + 1)"
  using majority_double [of r] majority_le_one [of r]
  by (auto simp: handleVoteResponse_def startElectionLocked_def Let_def
      majority_cong [of "r\<lparr>votes := votes r + 1\<rparr>" r]
      majority_cong [of "saveMeta (r\<lparr>state := Candidate, term_r := term_r r + 1, votedFor := id_r r\<rparr>)
        \<lparr>electionReset := now, votes := 1\<rparr>" r]
      split: if_splits)

text \<open>A candidate of three nodes that holds its own vote.\<close>

definition candidate4 :: raft where
  "candidate4 = fst (startElectionLocked 5 node4)"

theorem leader_needs_majority_witness:
  "let resp = \<lparr>rvr_Term = 2, rvr_VoteGranted = True\<rparr>; r' = fst (handleVoteResponse resp candidate4) in
   state candidate4 \<noteq> Leader \<and> state r' = Leader \<and> int (length (peers candidate4)) + 1 < 2 * votes r'"
proof -
  let ?resp = "\<lparr>rvr_Term = 2, rvr_VoteGranted = True\<rparr>"
  have "state candidate4 \<noteq> Leader" "state (fst (handleVoteResponse ?resp candidate4)) = Leader"
    by (simp_all add: candidate4_def startElectionLocked_def handleVoteResponse_def Let_def
        majority_def node4_def newRaft_def int_of32_def)
  with leader_needs_majority [of candidate4 ?resp 0] show ?thesis by simp
qed

subsection \<open>Terms and votes are kept\<close>

text \<open>
  What every handler keeps: terms never decrease, and within a term a vote once given is
  not changed unless the node is removed from the cluster, which is final.
\<close>

definition keeps_vote :: "raft \<Rightarrow> raft \<Rightarrow> bool" where
  "keeps_vote r r' \<longleftrightarrow>
     id_r r' = id_r r \<and> term_r r \<le> term_r r' \<and>
     (removedFromCluster r \<longrightarrow> removedFromCluster r') \<and>
     (term_r r' = term_r r \<and> votedFor r \<noteq> [] \<longrightarrow> votedFor r' = votedFor r \<or> removedFromCluster r')"

named_theorems keeps \<open>handlers keep terms and votes\<close>

lemma keeps_vote_refl [simp, intro!]: "keeps_vote r r"
  by (simp add: keeps_vote_def)

lemma keeps_vote_trans: "keeps_vote r r' \<Longrightarrow> keeps_vote r' r'' \<Longrightarrow> keeps_vote r r''"
  by (auto simp: keeps_vote_def)

lemma keeps_vote_same:
  "id_r r' = id_r r \<Longrightarrow> term_r r' = term_r r \<Longrightarrow> votedFor r' = votedFor r \<Longrightarrow>
   removedFromCluster r' = removedFromCluster r \<Longrightarrow> keeps_vote r r'"
  by (simp add: keeps_vote_def)

lemma keeps_vote_newer:
  "id_r r' = id_r r \<Longrightarrow> term_r r < term_r r' \<Longrightarrow>
   removedFromCluster r' = removedFromCluster r \<Longrightarrow> keeps_vote r r'"
  by (simp add: keeps_vote_def)

lemma keeps_RequestVote [keeps]: "keeps_vote r (fst (RequestVote now req r))"
  by (auto simp: RequestVote_alt Let_def keeps_vote_def)

lemma keeps_startElection [keeps]: "keeps_vote r (fst (startElectionLocked now r))"
  by (auto simp: startElectionLocked_def Let_def intro: keeps_vote_newer)

lemma keeps_handleVoteResponse [keeps]: "keeps_vote r (fst (handleVoteResponse resp r))"
  by (auto simp: handleVoteResponse_def Let_def intro: keeps_vote_newer keeps_vote_same)

lemma keeps_TimeoutNow [keeps]: "keeps_vote r (fst (TimeoutNow now req r))"
proof -
  let ?t = "int_of32 (tn_Term req)"
  have "keeps_vote r (if term_r r < ?t then adoptTerm ?t r else r)"
    by (simp add: keeps_vote_newer)
  from keeps_vote_trans [OF this keeps_startElection [of _ now]] show ?thesis
    by (auto simp: TimeoutNow_def Let_def case_prod_beta split: if_splits)
qed

lemma keeps_electionTick [keeps]: "keeps_vote r (snd (fst (electionTick now rnd (timeout, r))))"
  using keeps_startElection [of r now] by (auto simp: electionTick_def split: prod.split)

text \<open>The contract of a family of handlers, and what any sequence of them keeps.\<close>

locale vote_keeper =
  fixes step :: "'m \<Rightarrow> raft \<Rightarrow> raft"
  assumes step_keeps: "keeps_vote r (step m r)"
begin

fun run :: "'m list \<Rightarrow> raft \<Rightarrow> raft" where
  "run [] r = r"
| "run (m # ms) r = run ms (step m r)"

lemma run_keeps: "keeps_vote r (run ms r)"
  by (induction ms arbitrary: r) (auto intro: keeps_vote_trans step_keeps)

lemma run_append: "run (ms @ ns) r = run ns (run ms r)"
  by (induction ms arbitrary: r) auto

lemma run_term_mono: "term_r r \<le> term_r (run ms r)"
  using run_keeps [of r ms] by (simp add: keeps_vote_def)

lemma run_vote_once:
  assumes "votedFor r \<noteq> []" and "term_r (run ms r) = term_r r"
    and "\<not> removedFromCluster (run ms r)"
  shows "votedFor (run ms r) = votedFor r"
  using run_keeps [of r ms] assms by (simp add: keeps_vote_def)

end

end
