(* ===== verification/Raft_Replication.thy ===== *)
theory Raft_Replication
  imports Raft_Election
begin

section \<open>Log replication\<close>

text \<open>
  The \<^verbatim>\<open>AppendEntries\<close> handler of \<^verbatim>\<open>rpc.go\<close>, \<^verbatim>\<open>Propose\<close> and
  \<^verbatim>\<open>updateCommitIndexLocked\<close> of \<^verbatim>\<open>raft.go\<close>. The handler is shown to do what Raft asks of
  it: the log matching property between the leader's log and the follower's is kept, and a
  successful answer means that the two logs agree up to the last entry sent.
\<close>

subsection \<open>The AppendEntries handler\<close>

text \<open>Step 4, the consistency check.\<close>

definition prevMatches :: "AppendEntriesRequest \<Rightarrow> raft \<Rightarrow> bool" where
  "prevMatches req r =
     (if 0 < int_of32 (ae_PrevLogIndex req) then
        if int_of32 (ae_PrevLogIndex req) < logBaseIndex r then False
        else (case entryAt r (int_of32 (ae_PrevLogIndex req)) of
                None \<Rightarrow> False
              | Some entry \<Rightarrow> Term entry = int_of32 (ae_PrevLogTerm req))
      else True)"

text \<open>Step 7, the follower's commit index.\<close>

definition followCommit :: "AppendEntriesRequest \<Rightarrow> raft \<Rightarrow> raft" where
  "followCommit req r =
     (if commitIndex r < int_of32 (ae_LeaderCommit req) then
        (let lst = lastLogIndex r in
         if int_of32 (ae_LeaderCommit req) < lst
         then r\<lparr>commitIndex := int_of32 (ae_LeaderCommit req)\<rparr>
         else r\<lparr>commitIndex := lst\<rparr>)
      else r)"

definition AppendEntries ::
  "time \<Rightarrow> AppendEntriesRequest \<Rightarrow> raft \<Rightarrow> raft \<times> AppendEntriesResponse"
where
  "AppendEntries now req r =
     (let resp = \<lparr>aer_Term = int32 (term_r r), aer_Success = False\<rparr> in
      if \<not> isKnownNode r (ae_LeaderId req) then (r, resp)
      else if int_of32 (ae_Term req) < term_r r then (r, resp)
      else
        let r1 = (if term_r r < int_of32 (ae_Term req)
                  then adoptTerm (int_of32 (ae_Term req)) r else r);
            r2 = r1\<lparr>leader := ae_LeaderId req, electionReset := now\<rparr>
        in if \<not> prevMatches req r2 then (r2, resp)
           else
             let r3 = r2\<lparr>log_r := appendLoop (logBaseIndex r2) (log_r r2) (ae_Entries req)\<rparr>
             in (followCommit req (saveLog r3), resp\<lparr>aer_Success := True\<rparr>))"

subsection \<open>Proposals and commits\<close>

definition ErrNotLeader :: error where
  "ErrNotLeader = ''not leader''"

definition Propose :: "bytes \<Rightarrow> raft \<Rightarrow> raft \<times> (error + int)" where
  "Propose cmdData r =
     (if state r \<noteq> Leader then (r, Inl ErrNotLeader)
      else
        let index = lastLogIndex r + 1
        in (saveLog (r\<lparr>log_r := log_r r @ [\<lparr>Index = index, Term = term_r r, Data = cmdData\<rparr>]\<rparr>),
            Inr index))"

definition replicas :: "raft \<Rightarrow> int \<Rightarrow> int" where
  "replicas r N = foldl (\<lambda>count p. if N \<le> mget (matchIndex r) p then count + 1 else count) 1 (peers r)"

text \<open>The loop over \<open>N\<close>, from the last index down to the commit index.\<close>

function commitLoop :: "raft \<Rightarrow> int \<Rightarrow> int" where
  "commitLoop r N =
     (if \<not> commitIndex r < N then commitIndex r
      else case entryAt r N of
        None \<Rightarrow> commitLoop r (N - 1)
      | Some entry \<Rightarrow>
          if Term entry \<noteq> term_r r then commitLoop r (N - 1)
          else if majority r \<le> replicas r N then N
          else commitLoop r (N - 1))"
  by pat_completeness auto
termination
  by (relation "measure (\<lambda>(r, N). nat (N - commitIndex r))") auto

declare commitLoop.simps [simp del]

definition updateCommitIndexLocked :: "raft \<Rightarrow> raft" where
  "updateCommitIndexLocked r =
     (if state r \<noteq> Leader then r else r\<lparr>commitIndex := commitLoop r (lastLogIndex r)\<rparr>)"

subsection \<open>Frames\<close>

lemma followCommit_frame [simp, frame_simps]:
  "id_r (followCommit q r) = id_r r" "peers (followCommit q r) = peers r"
  "state (followCommit q r) = state r" "term_r (followCommit q r) = term_r r"
  "votes (followCommit q r) = votes r" "votedFor (followCommit q r) = votedFor r"
  "electionReset (followCommit q r) = electionReset r" "log_r (followCommit q r) = log_r r"
  "lastApplied (followCommit q r) = lastApplied r" "leader (followCommit q r) = leader r"
  "logBaseIndex (followCommit q r) = logBaseIndex r" "fs_r (followCommit q r) = fs_r r"
  "removedFromCluster (followCommit q r) = removedFromCluster r"
  "snapshot (followCommit q r) = snapshot r" "applyCh (followCommit q r) = applyCh r"
  "waiters (followCommit q r) = waiters r" "dataDir (followCommit q r) = dataDir r"
  by (simp_all add: followCommit_def Let_def)

lemma lastLogIndex_simps [simp]:
  "lastLogIndex (saveLog r) = lastLogIndex r" "lastLogIndex (saveMeta r) = lastLogIndex r"
  "lastLogIndex (adoptTerm t r) = lastLogIndex r" "lastLogIndex (followCommit q r) = lastLogIndex r"
  "lastLogIndex (r\<lparr>leader := l, electionReset := n\<rparr>) = lastLogIndex r"
  "lastLogIndex (r\<lparr>commitIndex := c\<rparr>) = lastLogIndex r"
  by (simp_all add: lastLogIndex_def)

lemma entryAt_simps [simp]:
  "entryAt (saveLog r) = entryAt r" "entryAt (saveMeta r) = entryAt r"
  "entryAt (adoptTerm t r) = entryAt r" "entryAt (followCommit q r) = entryAt r"
  "entryAt (r\<lparr>leader := l, electionReset := n\<rparr>) = entryAt r"
  "entryAt (r\<lparr>commitIndex := c\<rparr>) = entryAt r"
  by (auto simp: entryAt_eq fun_eq_iff)

lemma prevMatches_simps [simp]:
  "prevMatches q (adoptTerm t r) = prevMatches q r"
  "prevMatches q (r\<lparr>leader := l, electionReset := n\<rparr>) = prevMatches q r"
  by (simp_all add: prevMatches_def)

text \<open>When the handler accepts, and what it then leaves behind.\<close>

lemma AppendEntries_success_iff:
  "aer_Success (snd (AppendEntries now req r)) \<longleftrightarrow>
     isKnownNode r (ae_LeaderId req) \<and> term_r r \<le> int_of32 (ae_Term req) \<and> prevMatches req r"
  by (auto simp: AppendEntries_def Let_def)

lemma AppendEntries_log:
  "log_r (fst (AppendEntries now req r)) =
     (if aer_Success (snd (AppendEntries now req r))
      then appendLoop (logBaseIndex r) (log_r r) (ae_Entries req) else log_r r)"
  "logBaseIndex (fst (AppendEntries now req r)) = logBaseIndex r"
  "lastApplied (fst (AppendEntries now req r)) = lastApplied r"
  by (simp_all add: AppendEntries_def Let_def)

lemma AppendEntries_commit:
  "aer_Success (snd (AppendEntries now req r)) \<Longrightarrow>
     commitIndex (fst (AppendEntries now req r)) =
       (if commitIndex r < int_of32 (ae_LeaderCommit req)
        then min (int_of32 (ae_LeaderCommit req)) (lastLogIndex (fst (AppendEntries now req r)))
        else commitIndex r)"
  by (auto simp: AppendEntries_def Let_def followCommit_def split: if_splits)

lemma AppendEntries_commit_fail:
  "\<not> aer_Success (snd (AppendEntries now req r)) \<Longrightarrow>
     commitIndex (fst (AppendEntries now req r)) = commitIndex r"
  by (auto simp: AppendEntries_def Let_def split: if_splits)

lemma keeps_AppendEntries [keeps]: "keeps_vote r (fst (AppendEntries now req r))"
  by (auto simp: AppendEntries_def Let_def keeps_vote_def)

lemma keeps_Propose [keeps]: "keeps_vote r (fst (Propose b r))"
  by (auto simp: Propose_def Let_def intro: keeps_vote_same)

lemma keeps_updateCommit [keeps]: "keeps_vote r (updateCommitIndexLocked r)"
  by (auto simp: updateCommitIndexLocked_def intro: keeps_vote_same)

subsection \<open>The commit rule\<close>

text \<open>An index the leader may commit: its entry is of the leader's term and a majority of
  the configuration, the leader included, is known to store it.\<close>

definition committable :: "raft \<Rightarrow> int \<Rightarrow> bool" where
  "committable r N \<longleftrightarrow>
     (\<exists>e. entryAt r N = Some e \<and> Term e = term_r r) \<and>
     int (length (peers r)) + 1 < 2 * (1 + int (length (filter (\<lambda>p. N \<le> mget (matchIndex r) p) (peers r))))"

lemma replicas_filter:
  "replicas r N = 1 + int (length (filter (\<lambda>p. N \<le> mget (matchIndex r) p) (peers r)))"
proof -
  have "foldl (\<lambda>count p. if P p then count + 1 else count) c ps = c + int (length (filter P ps))"
    for P :: "NodeID \<Rightarrow> bool" and c :: int and ps
    by (induction ps arbitrary: c) auto
  then show ?thesis by (simp add: replicas_def)
qed

lemma committable_iff:
  "committable r N \<longleftrightarrow>
     (\<exists>e. entryAt r N = Some e \<and> Term e = term_r r) \<and> majority r \<le> replicas r N"
  by (auto simp: committable_def replicas_filter majority_def Let_def)

lemma commitLoop_spec:
  "(commitLoop r N = commitIndex r \<or> commitIndex r < commitLoop r N \<and> commitLoop r N \<le> N \<and>
      committable r (commitLoop r N)) \<and>
   (\<forall>M. commitIndex r < M \<longrightarrow> M \<le> N \<longrightarrow> committable r M \<longrightarrow> M \<le> commitLoop r N)"
proof (induction r N rule: commitLoop.induct)
  case (1 r N)
  let ?sc = "commitIndex r < N" and ?hit = "committable r N"
  have step: "commitLoop r N =
      (if \<not> ?sc then commitIndex r else if ?hit then N else commitLoop r (N - 1))"
    by (subst commitLoop.simps) (auto simp: committable_iff split: option.split)
  show ?case
  proof (cases "?sc \<and> \<not> ?hit")
    case True
    with 1 have ih:
      "(commitLoop r (N - 1) = commitIndex r \<or> commitIndex r < commitLoop r (N - 1) \<and>
          commitLoop r (N - 1) \<le> N - 1 \<and> committable r (commitLoop r (N - 1))) \<and>
       (\<forall>M. commitIndex r < M \<longrightarrow> M \<le> N - 1 \<longrightarrow> committable r M \<longrightarrow> M \<le> commitLoop r (N - 1))"
      by (cases "entryAt r N") (auto simp: committable_iff)
    have "M \<le> N - 1" if "M \<le> N" "committable r M" for M
      using True that by (cases "M = N") auto
    with ih step True show ?thesis by force
  next
    case False
    with step show ?thesis by auto
  qed
qed

text \<open>C3: the commit rule. A leader's commit index becomes the greatest index of its log
  that holds an entry of its own term and is known to be stored on a majority of the
  configuration, and stays where it is when there is none; a node that is not leader does
  not move it. The descending scan with its early exit computes that maximum.\<close>

theorem updateCommitIndex_greatest:
  "commitIndex (updateCommitIndexLocked r) =
     (if state r = Leader
      then Max (insert (commitIndex r)
             {N. commitIndex r < N \<and> N \<le> lastLogIndex r \<and> committable r N})
      else commitIndex r)"
proof -
  let ?S = "{N. commitIndex r < N \<and> N \<le> lastLogIndex r \<and> committable r N}"
  have "finite ?S" by (rule finite_subset [of _ "{commitIndex r..lastLogIndex r}"]) auto
  then have "Max (insert (commitIndex r) ?S) = commitLoop r (lastLogIndex r)"
    using commitLoop_spec [of r "lastLogIndex r"] by (intro Max_eqI) auto
  then show ?thesis by (simp add: updateCommitIndexLocked_def)
qed

lemma updateCommit_mono: "commitIndex r \<le> commitIndex (updateCommitIndexLocked r)"
  using commitLoop_spec [of r "lastLogIndex r"] by (auto simp: updateCommitIndexLocked_def)

lemma updateCommit_le_last:
  "commitIndex r \<le> lastLogIndex r \<Longrightarrow> commitIndex (updateCommitIndexLocked r) \<le> lastLogIndex r"
  using commitLoop_spec [of r "lastLogIndex r"] by (auto simp: updateCommitIndexLocked_def)

lemma updateCommit_frame [simp, frame_simps]:
  "id_r (updateCommitIndexLocked r) = id_r r" "peers (updateCommitIndexLocked r) = peers r"
  "state (updateCommitIndexLocked r) = state r" "term_r (updateCommitIndexLocked r) = term_r r"
  "votedFor (updateCommitIndexLocked r) = votedFor r" "votes (updateCommitIndexLocked r) = votes r"
  "log_r (updateCommitIndexLocked r) = log_r r" "fs_r (updateCommitIndexLocked r) = fs_r r"
  "logBaseIndex (updateCommitIndexLocked r) = logBaseIndex r"
  "lastApplied (updateCommitIndexLocked r) = lastApplied r"
  "matchIndex (updateCommitIndexLocked r) = matchIndex r"
  "nextIndex (updateCommitIndexLocked r) = nextIndex r"
  "snapshot (updateCommitIndexLocked r) = snapshot r"
  "removedFromCluster (updateCommitIndexLocked r) = removedFromCluster r"
  "leader (updateCommitIndexLocked r) = leader r" "applyCh (updateCommitIndexLocked r) = applyCh r"
  by (simp_all add: updateCommitIndexLocked_def)

subsection \<open>What the overwrite loop does to a log\<close>

text \<open>Entries below the base are skipped one by one.\<close>

lemma appendLoop_skip:
  "contiguous i (map toLogEntry es) \<Longrightarrow>
     appendLoop base lg es = appendLoop base lg (drop (nat (base - i)) es)"
proof (induction es arbitrary: i)
  case (Cons e es)
  show ?case
  proof (cases "i < base")
    case True
    then have "nat (base - i) = Suc (nat (base - (i + 1)))" by simp
    with True Cons.prems Cons.IH [of "i + 1"] show ?thesis by (simp add: Let_def)
  qed simp
qed simp

text \<open>An overlay either leaves the old list as it is or is the old list cut at the first
  disagreement and continued with the new entries.\<close>

lemma overlay_cases:
  obtains (kept) "overlay os ns = os" "length ns \<le> length os"
      "\<forall>k < length ns. Term (os ! k) = Term (ns ! k)"
    | (cut) m where "m < length ns" "m \<le> length os" "overlay os ns = take m os @ drop m ns"
      "\<forall>k < m. Term (os ! k) = Term (ns ! k)" "m < length os \<longrightarrow> Term (os ! m) \<noteq> Term (ns ! m)"
proof -
  have "overlay os ns = os \<and> length ns \<le> length os \<and>
      (\<forall>k < length ns. Term (os ! k) = Term (ns ! k)) \<or>
    (\<exists>m < length ns. m \<le> length os \<and> overlay os ns = take m os @ drop m ns \<and>
      (\<forall>k < m. Term (os ! k) = Term (ns ! k)) \<and>
      (m < length os \<longrightarrow> Term (os ! m) \<noteq> Term (ns ! m)))"
  proof (induction os ns rule: overlay.induct)
    case (3 e os n ns)
    show ?case
    proof (cases "Term e = Term n")
      case True
      from 3 [OF True] show ?thesis
      proof (elim disjE conjE exE)
        fix m assume "m < length ns" "m \<le> length os" "overlay os ns = take m os @ drop m ns"
          "\<forall>k < m. Term (os ! k) = Term (ns ! k)" "m < length os \<longrightarrow> Term (os ! m) \<noteq> Term (ns ! m)"
        with True show ?thesis
          by (intro disjI2 exI [of _ "Suc m"]) (auto simp: nth_Cons')
      qed (use True in \<open>auto simp: nth_Cons'\<close>)
    qed (auto intro!: exI [of _ 0])
  qed (auto intro!: exI [of _ 0])
  then show thesis using kept cut by blast
qed

text \<open>The shape of a request a leader builds: a non-negative previous index, and entries
  that follow it without gaps.\<close>

definition wf_request :: "AppendEntriesRequest \<Rightarrow> bool" where
  "wf_request req \<longleftrightarrow> 0 \<le> int_of32 (ae_PrevLogIndex req) \<and>
     contiguous (int_of32 (ae_PrevLogIndex req) + 1) (map toLogEntry (ae_Entries req))"

lemma prevMatches_range:
  assumes "wf_log r" and "wf_request req" and "prevMatches req r"
  shows "nat (int_of32 (ae_PrevLogIndex req) + 1 - logBaseIndex r) \<le> length (log_r r)"
proof (cases "0 < int_of32 (ae_PrevLogIndex req)")
  case True
  with assms(3) obtain e where "entryAt r (int_of32 (ae_PrevLogIndex req)) = Some e"
    by (auto simp: prevMatches_def split: if_splits option.splits)
  then show ?thesis by (auto simp: entryAt_eq split: if_splits)
next
  case False
  with assms(1,2) show ?thesis
    by (cases "log_r r") (auto simp: wf_log_def wf_request_def)
qed

lemma AppendEntries_overlay:
  assumes "wf_log r" and "wf_request req" and ok: "aer_Success (snd (AppendEntries now req r))"
  defines "i0 \<equiv> int_of32 (ae_PrevLogIndex req) + 1"
  defines "p \<equiv> nat (i0 - logBaseIndex r)" and "ns \<equiv> drop (nat (logBaseIndex r - i0)) (map toLogEntry (ae_Entries req))"
  shows "p \<le> length (log_r r)" and "contiguous (logBaseIndex r + int p) ns"
    and "log_r (fst (AppendEntries now req r)) = take p (log_r r) @ overlay (drop p (log_r r)) ns"
proof -
  let ?es = "ae_Entries req" and ?k = "nat (logBaseIndex r - i0)"
  from ok have "prevMatches req r" by (simp add: AppendEntries_success_iff)
  with assms(1,2) prevMatches_range show p: "p \<le> length (log_r r)" by (simp add: p_def i0_def)
  from assms(2) have c: "contiguous i0 (map toLogEntry ?es)" by (simp add: wf_request_def i0_def)
  show cn: "contiguous (logBaseIndex r + int p) ns"
  proof (cases "?k \<le> length ?es")
    case True
    have "logBaseIndex r + int p = i0 + int ?k" by (simp add: p_def)
    with True c contiguous_drop [of i0 "map toLogEntry ?es" ?k] show ?thesis by (simp add: ns_def)
  qed (simp add: ns_def)
  have "log_r (fst (AppendEntries now req r)) = appendLoop (logBaseIndex r) (log_r r) (drop ?k ?es)"
    using ok appendLoop_skip [OF c] by (simp add: AppendEntries_log)
  also have "\<dots> = take p (log_r r) @ overlay (drop p (log_r r)) ns"
    using appendLoop_overlay [OF p, of "logBaseIndex r" "drop ?k ?es"] cn by (simp add: ns_def drop_map)
  finally show "log_r (fst (AppendEntries now req r)) = \<dots>" .
qed

lemma overlay_eq_Nil [simp]: "overlay os ns = [] \<longleftrightarrow> os = [] \<and> ns = []"
  by (cases "(os, ns)" rule: overlay.cases) auto

lemma wf_AppendEntries [wf_intros]:
  assumes "wf_log r" and "wf_request req"
  shows "wf_log (fst (AppendEntries now req r))"
proof (cases "aer_Success (snd (AppendEntries now req r))")
  case True
  define i0 where "i0 = int_of32 (ae_PrevLogIndex req) + 1"
  define p where "p = nat (i0 - logBaseIndex r)"
  define ns where "ns = drop (nat (logBaseIndex r - i0)) (map toLogEntry (ae_Entries req))"
  note * = AppendEntries_overlay [OF assms True, folded i0_def, folded p_def ns_def]
  from assms(1) have "contiguous (logBaseIndex r) (log_r r)" "log_r r \<noteq> []" "0 \<le> logBaseIndex r"
    by (auto simp: wf_log_def)
  with *(1,2) contiguous_drop [of _ "log_r r" p] show ?thesis
    by (auto simp: wf_log_def *(3) AppendEntries_log(2) contiguous_overlay min_def)
next
  case False
  with assms(1) show ?thesis by (simp add: wf_log_def AppendEntries_log)
qed


lemma entryAt_splice:
  assumes "log_r r' = take n (log_r r) @ xs" and "logBaseIndex r' = logBaseIndex r"
    and "n \<le> length (log_r r)"
  shows "entryAt r' i =
     (if i < logBaseIndex r + int n then entryAt r i
      else if i < logBaseIndex r + int n + int (length xs)
      then Some (xs ! nat (i - (logBaseIndex r + int n))) else None)"
  using assms by (auto simp: entryAt_eq nth_append nat_diff_distrib intro!: arg_cong [of _ _ "nth xs"])

lemma entryAt_agree:
  assumes "p + m \<le> length (log_r r)" and "\<forall>j < m. Term (drop p (log_r r) ! j) = Term (ns ! j)"
    and "logBaseIndex r + int p \<le> i" and "i < logBaseIndex r + int (p + m)"
  shows "\<exists>e. entryAt r i = Some e \<and> Term e = Term (ns ! nat (i - (logBaseIndex r + int p)))"
proof -
  define j where "j = nat (i - (logBaseIndex r + int p))"
  with assms(3,4) have i: "i = logBaseIndex r + int p + int j" "j < m" by auto
  with assms(1,2) show ?thesis
    by (auto simp: entryAt_eq nat_add_distrib j_def [symmetric])
qed

text \<open>The handler seen index by index. Either the follower already had every entry, and
  nothing changes, or there is a first index \<open>c\<close> where its log ends or disagrees: below \<open>c\<close>
  nothing changes, from \<open>c\<close> on the log is what the leader sent.\<close>

lemma AppendEntries_entryAt:
  assumes "wf_log r" and "wf_request req" and "aer_Success (snd (AppendEntries now req r))"
  defines "i0 \<equiv> int_of32 (ae_PrevLogIndex req) + 1" and "es \<equiv> ae_Entries req"
    and "r' \<equiv> fst (AppendEntries now req r)"
  obtains (same) "log_r r' = log_r r" "i0 + int (length es) \<le> lastLogIndex r + 1"
      "\<forall>i. i0 \<le> i \<and> i < i0 + int (length es) \<and> logBaseIndex r \<le> i \<longrightarrow>
         (\<exists>e. entryAt r i = Some e \<and> Term e = int_of32 (pe_Term (es ! nat (i - i0))))"
    | (split) c where "i0 \<le> c" "c < i0 + int (length es)" "logBaseIndex r \<le> c" "c \<le> lastLogIndex r + 1"
      "\<forall>i < c. entryAt r' i = entryAt r i"
      "\<forall>i \<ge> c. entryAt r' i =
         (if i < i0 + int (length es) then Some (toLogEntry (es ! nat (i - i0))) else None)"
      "\<forall>i. i0 \<le> i \<and> i < c \<and> logBaseIndex r \<le> i \<longrightarrow>
         (\<exists>e. entryAt r i = Some e \<and> Term e = int_of32 (pe_Term (es ! nat (i - i0))))"
      "\<forall>e. entryAt r c = Some e \<longrightarrow> Term e \<noteq> int_of32 (pe_Term (es ! nat (c - i0)))"
proof -
  define p where "p = nat (i0 - logBaseIndex r)"
  define k where "k = nat (logBaseIndex r - i0)"
  define ns where "ns = drop k (map toLogEntry es)"
  let ?b = "logBaseIndex r" and ?lg = "log_r r"
  note * = AppendEntries_overlay [OF assms(1-3), folded i0_def es_def r'_def, folded p_def k_def, folded ns_def]
  have bp: "?b + int p = i0 + int k" by (simp add: p_def k_def)
  have nth: "ns ! nat (i - (?b + int p)) = toLogEntry (es ! nat (i - i0))"
    if "?b + int p \<le> i" "i < ?b + int p + int (length ns)" for i
  proof -
    from that bp have "k + nat (i - (?b + int p)) = nat (i - i0)" by simp
    with that show ?thesis by (simp add: ns_def)
  qed
  have len: "int (length ns) = max 0 (int (length es) - int k)" by (simp add: ns_def)
  have last: "lastLogIndex r + 1 = ?b + int (length ?lg)" using assms(1) by (simp add: lastLogIndex_wf)
  have base: "logBaseIndex r' = ?b" by (simp add: r'_def AppendEntries_log(2))
  have agree: "\<exists>e. entryAt r i = Some e \<and> Term e = int_of32 (pe_Term (es ! nat (i - i0)))"
    if "m \<le> length ns" "p + m \<le> length ?lg" "\<forall>j < m. Term (drop p ?lg ! j) = Term (ns ! j)"
      "i0 \<le> i" "?b \<le> i" "i < ?b + int (p + m)" for i m
    using entryAt_agree [OF that(2,3), of i] nth [of i] that p_def by auto
  show thesis
  proof (cases rule: overlay_cases [of "drop p ?lg" ns])
    case kept
    with *(1,3) bp len last agree [of "length ns"] show thesis by (intro same) auto
  next
    case (cut m)
    let ?c = "?b + int (p + m)"
    have pm: "p + m \<le> length ?lg" using cut(2) *(1) by simp
    have lg': "log_r r' = take (p + m) ?lg @ drop m ns" using *(3) cut(3) by (simp add: take_add)
    have sh: "m + nat (i - ?c) = nat (i - (?b + int p))" if "?c \<le> i" for i
      using that by simp
    have at': "entryAt r' i = (if i < ?c then entryAt r i
        else if i < i0 + int (length es) then Some (toLogEntry (es ! nat (i - i0))) else None)" for i
      using entryAt_splice [OF lg' base pm, of i] nth [of i] sh [of i] cut(1) bp len by auto
    have "Term e \<noteq> int_of32 (pe_Term (es ! nat (?c - i0)))" if "entryAt r ?c = Some e" for e
      using that cut(1,5) nth [of ?c] by (auto simp: entryAt_eq nat_add_distrib split: if_splits)
    then show thesis
      using at' cut(1) bp len pm last agree [OF _ pm cut(4)] by (intro split [of ?c]) auto
  qed
qed

subsection \<open>Log matching\<close>

text \<open>
  Two logs agree at an index when, where both have an entry, the terms are the same, and the
  entries are the same unless one of them is the dummy at a compaction boundary, which has
  lost its data. Log matching: agreement of the terms at an index means agreement at every
  index before it.
\<close>

definition same_at :: "raft \<Rightarrow> raft \<Rightarrow> int \<Rightarrow> bool" where
  "same_at a b i \<longleftrightarrow>
     (\<forall>x y. entryAt a i = Some x \<and> entryAt b i = Some y \<longrightarrow>
        Term x = Term y \<and> (logBaseIndex a < i \<and> logBaseIndex b < i \<longrightarrow> x = y))"

definition agree_upto :: "raft \<Rightarrow> raft \<Rightarrow> int \<Rightarrow> bool" where
  "agree_upto a b n \<longleftrightarrow> (\<forall>i \<le> n. same_at a b i)"

definition log_matching :: "raft \<Rightarrow> raft \<Rightarrow> bool" where
  "log_matching a b \<longleftrightarrow>
     (\<forall>i x y. entryAt a i = Some x \<and> entryAt b i = Some y \<and> Term x = Term y \<longrightarrow> agree_upto a b i)"

text \<open>The dummy entry at index 0 has term 0 in every log.\<close>

definition sentinel :: "raft \<Rightarrow> bool" where
  "sentinel r \<longleftrightarrow> (\<forall>e. entryAt r 0 = Some e \<longrightarrow> Term e = 0)"

text \<open>A request whose previous entry and entries are those of the sender's log.\<close>

definition sentBy :: "raft \<Rightarrow> AppendEntriesRequest \<Rightarrow> bool" where
  "sentBy l req \<longleftrightarrow>
     (let prev = int_of32 (ae_PrevLogIndex req) in
      0 \<le> prev \<and>
      (\<exists>e. entryAt l prev = Some e \<and> Term e = int_of32 (ae_PrevLogTerm req)) \<and>
      (\<forall>k < length (ae_Entries req). entryAt l (prev + 1 + int k) = Some (toLogEntry (ae_Entries req ! k))))"

lemma sentBy_entry:
  assumes "sentBy l req" and "int_of32 (ae_PrevLogIndex req) < i"
    and "i < int_of32 (ae_PrevLogIndex req) + 1 + int (length (ae_Entries req))"
  shows "entryAt l i = Some (toLogEntry (ae_Entries req ! nat (i - (int_of32 (ae_PrevLogIndex req) + 1))))"
proof -
  let ?k = "nat (i - (int_of32 (ae_PrevLogIndex req) + 1))"
  have "i = int_of32 (ae_PrevLogIndex req) + 1 + int ?k" "?k < length (ae_Entries req)"
    using assms(2,3) by auto
  with assms(1) show ?thesis unfolding sentBy_def Let_def by metis
qed

lemma wf_request_sentBy: "wf_log l \<Longrightarrow> sentBy l req \<Longrightarrow> wf_request req"
  using entryAt_SomeD(1) [of l] by (fastforce simp: wf_request_def sentBy_def Let_def contiguous_def)

lemma agree_upto_mono: "agree_upto a b n \<Longrightarrow> m \<le> n \<Longrightarrow> agree_upto a b m"
  by (auto simp: agree_upto_def)

lemma agree_below_base: "n < logBaseIndex b \<Longrightarrow> agree_upto a b n"
  by (auto simp: agree_upto_def same_at_def entryAt_eq split: if_splits)

lemma agree_prev:
  assumes "sentBy l req" and "prevMatches req f" and "log_matching l f"
    and "sentinel l" and "sentinel f" and "wf_log f"
  shows "agree_upto l f (int_of32 (ae_PrevLogIndex req))"
proof (cases "entryAt f (int_of32 (ae_PrevLogIndex req))")
  case None
  with assms(1,2,6) have "int_of32 (ae_PrevLogIndex req) < logBaseIndex f"
    by (cases "log_r f")
       (auto simp: prevMatches_def sentBy_def Let_def wf_log_def entryAt_eq split: if_splits)
  then show ?thesis by (rule agree_below_base)
next
  case (Some y)
  from assms(1) obtain x where x: "entryAt l (int_of32 (ae_PrevLogIndex req)) = Some x"
    "Term x = int_of32 (ae_PrevLogTerm req)" "0 \<le> int_of32 (ae_PrevLogIndex req)"
    by (auto simp: sentBy_def Let_def)
  with assms(2,4,5) Some have "Term x = Term y"
    by (cases "int_of32 (ae_PrevLogIndex req) = 0")
       (auto simp: prevMatches_def sentinel_def split: if_splits)
  with assms(3) x(1) Some show ?thesis by (auto simp: log_matching_def)
qed

lemma agree_extend:
  assumes "log_matching l f" and "agree_upto l f p"
    and "\<forall>i. p < i \<and> i \<le> n \<and> logBaseIndex f \<le> i \<longrightarrow>
           (\<exists>x y. entryAt l i = Some x \<and> entryAt f i = Some y \<and> Term y = Term x)"
  shows "agree_upto l f n"
proof (cases "n \<le> p \<or> n < logBaseIndex f")
  case True
  with assms(2) show ?thesis by (auto intro: agree_upto_mono agree_below_base)
next
  case False
  then obtain x y where "entryAt l n = Some x" "entryAt f n = Some y" "Term y = Term x"
    using assms(3) [rule_format, of n] False by auto
  with assms(1) show ?thesis by (auto simp: log_matching_def)
qed

lemma agree_all_matching: "\<forall>i. same_at a b i \<Longrightarrow> log_matching a b"
  by (auto simp: log_matching_def agree_upto_def)

lemma same_at_cong:
  "entryAt b' i = entryAt b i \<Longrightarrow> logBaseIndex b' = logBaseIndex b \<Longrightarrow> same_at a b' i = same_at a b i"
  by (simp add: same_at_def)

lemma AppendEntries_matching:
  assumes "wf_log l" and "wf_log f" and "sentinel l" and "sentinel f" and "log_matching l f"
    and "sentBy l req" and "aer_Success (snd (AppendEntries now req f))"
  defines "f' \<equiv> fst (AppendEntries now req f)"
    and "n \<equiv> int_of32 (ae_PrevLogIndex req) + int (length (ae_Entries req))"
  shows "log_matching l f'" and "agree_upto l f' n" and "n \<le> lastLogIndex f'"
proof -
  define i0 where "i0 = int_of32 (ae_PrevLogIndex req) + 1"
  have wr: "wf_request req" using assms(1,6) by (rule wf_request_sentBy)
  have wf': "wf_log f'" unfolding f'_def using assms(2) wr by (rule wf_AppendEntries)
  have base: "logBaseIndex f' = logBaseIndex f" by (simp add: f'_def AppendEntries_log(2))
  have prev: "agree_upto l f (i0 - 1)"
    using agree_prev [OF assms(6) _ assms(5,3,4,2)] assms(7) by (simp add: AppendEntries_success_iff i0_def)
  note ent = sentBy_entry [OF assms(6), folded i0_def]
  from assms(2) wr assms(7) have "log_matching l f' \<and> agree_upto l f' n \<and> n \<le> lastLogIndex f'"
  proof (cases rule: AppendEntries_entryAt)
    case same
    then have eq: "entryAt f' = entryAt f" "lastLogIndex f' = lastLogIndex f"
      using base by (auto simp: entryAt_eq fun_eq_iff lastLogIndex_def f'_def)
    have "agree_upto l f n"
      using same(3) ent by (intro agree_extend [OF assms(5) prev]) (auto simp: n_def i0_def)
    moreover have "log_matching l f' = log_matching l f" "agree_upto l f' n = agree_upto l f n"
      using eq(1) base by (simp_all add: log_matching_def agree_upto_def same_at_def)
    ultimately show ?thesis using assms(5) same(2) eq(2) by (simp add: n_def)
  next
    case (split c)
    have "agree_upto l f (c - 1)"
      using split(1,2,7) ent by (intro agree_extend [OF assms(5) prev]) (auto simp: i0_def)
    moreover have "same_at l f' i" if "c \<le> i" for i
      using split(1,6) ent [of i] that by (auto simp: same_at_def f'_def i0_def)
    ultimately have all: "\<forall>i. same_at l f' i"
      using split(5) base same_at_cong [of f' _ f l]
      by (metis agree_upto_def f'_def int_one_le_iff_zero_less linorder_not_le zle_diff1_eq)
    moreover have "entryAt f' n \<noteq> None"
      using split(1,2,6) by (auto simp: f'_def n_def)
    ultimately show ?thesis
      using agree_all_matching [OF all] entryAt_ne_None_iff [OF wf'] by (auto simp: agree_upto_def)
  qed
  then show "log_matching l f'" "agree_upto l f' n" "n \<le> lastLogIndex f'" by blast+
qed

text \<open>C2: replication keeps log matching. When a follower whose log matches the leader's
  accepts a request cut from the leader's log, its new log still matches, agrees with the
  leader's at every index up to the last one sent, and reaches that index. This holds
  whatever conflicting or extra entries the follower had, and whatever prefix either side
  has compacted.\<close>

theorem AppendEntries_log_matching:
  assumes "wf_log l" and "wf_log f" and "sentinel l" and "sentinel f" and "log_matching l f"
    and "sentBy l req" and "aer_Success (snd (AppendEntries now req f))"
  defines "f' \<equiv> fst (AppendEntries now req f)"
    and "n \<equiv> int_of32 (ae_PrevLogIndex req) + int (length (ae_Entries req))"
  shows "log_matching l f' \<and> agree_upto l f' n \<and> n \<le> lastLogIndex f'"
  using AppendEntries_matching [OF assms(1-7)] by (simp add: f'_def n_def)

text \<open>A follower with a conflicting entry at index 6, and the leader's request that
  repairs it.\<close>

definition follower4 :: raft where
  "follower4 = newRaft ''n2'' [''n1'', ''n3''] 2 [] 0
     [\<lparr>Index = 4, Term = 1, Data = []\<rparr>, \<lparr>Index = 5, Term = 1, Data = ''a''\<rparr>,
      \<lparr>Index = 6, Term = 1, Data = ''x''\<rparr>] 4 None ''d'' \<lparr>files = Map.empty, faults = []\<rparr>"

definition repair4 :: AppendEntriesRequest where
  "repair4 = \<lparr>ae_Term = 2, ae_LeaderId = ''n1'', ae_PrevLogIndex = 5, ae_PrevLogTerm = 1,
     ae_Entries = [\<lparr>pe_Index = 6, pe_Term = 2, pe_Data = ''b''\<rparr>], ae_LeaderCommit = 5\<rparr>"

lemma entryAt_node4:
  "entryAt node4 i =
     (if i = 4 then Some \<lparr>Index = 4, Term = 1, Data = []\<rparr>
      else if i = 5 then Some \<lparr>Index = 5, Term = 1, Data = ''a''\<rparr>
      else if i = 6 then Some \<lparr>Index = 6, Term = 2, Data = ''b''\<rparr> else None)"
proof -
  consider "i < 4" | "i = 4" | "i = 5" | "i = 6" | "6 < i" by linarith
  then show ?thesis by cases (simp_all add: entryAt_eq node4_def newRaft_def)
qed

lemma entryAt_follower4:
  "entryAt follower4 i =
     (if i = 4 then Some \<lparr>Index = 4, Term = 1, Data = []\<rparr>
      else if i = 5 then Some \<lparr>Index = 5, Term = 1, Data = ''a''\<rparr>
      else if i = 6 then Some \<lparr>Index = 6, Term = 1, Data = ''x''\<rparr> else None)"
proof -
  consider "i < 4" | "i = 4" | "i = 5" | "i = 6" | "6 < i" by linarith
  then show ?thesis by cases (simp_all add: entryAt_eq follower4_def newRaft_def)
qed

lemma follower4_facts:
  "wf_log follower4" "log_matching node4 follower4" "sentinel node4" "sentinel follower4"
  "sentBy node4 repair4" "aer_Success (snd (AppendEntries 9 repair4 follower4))"
proof -
  show "wf_log follower4" by (simp add: wf_log_def follower4_def newRaft_def)
  show "log_matching node4 follower4"
    by (auto simp: log_matching_def agree_upto_def same_at_def entryAt_node4 entryAt_follower4)
  show "sentinel node4" "sentinel follower4"
    by (simp_all add: sentinel_def entryAt_node4 entryAt_follower4)
  show "sentBy node4 repair4"
    by (simp add: sentBy_def repair4_def entryAt_node4 int_of32_def toLogEntry_def)
  show "aer_Success (snd (AppendEntries 9 repair4 follower4))"
    by (simp add: AppendEntries_success_iff prevMatches_def repair4_def entryAt_follower4 int_of32_def)
       (simp add: isKnownNode_def follower4_def newRaft_def)
qed

theorem AppendEntries_log_matching_witness:
  "sentBy node4 repair4 \<and> \<not> agree_upto node4 follower4 6 \<and>
   agree_upto node4 (fst (AppendEntries 9 repair4 follower4)) 6"
proof -
  have "\<not> same_at node4 follower4 6" by (simp add: same_at_def entryAt_node4 entryAt_follower4)
  moreover have "int_of32 (ae_PrevLogIndex repair4) + int (length (ae_Entries repair4)) = 6"
    by (simp add: repair4_def int_of32_def)
  ultimately show ?thesis
    using AppendEntries_log_matching [OF wf_node4 follower4_facts(1,3,4,2,5,6)] follower4_facts(5)
    by (auto simp: agree_upto_def)
qed

subsection \<open>Committed entries\<close>

lemma AppendEntries_committed:
  fixes now :: time
  assumes "wf_log r" and "wf_request req" and "commitIndex r \<le> lastLogIndex r"
    and "\<forall>e \<in> set (ae_Entries req). int_of32 (pe_Index e) \<le> commitIndex r \<longrightarrow>
           (\<forall>x. entryAt r (int_of32 (pe_Index e)) = Some x \<longrightarrow> Term x = int_of32 (pe_Term e))"
  defines "r' \<equiv> fst (AppendEntries now req r)"
  shows "i \<le> commitIndex r \<Longrightarrow> entryAt r' i = entryAt r i"
    and "commitIndex r \<le> commitIndex r'" and "commitIndex r' \<le> lastLogIndex r'"
proof -
  have "(\<forall>i \<le> commitIndex r. entryAt r' i = entryAt r i) \<and>
         commitIndex r \<le> commitIndex r' \<and> commitIndex r' \<le> lastLogIndex r'"
  proof (cases "aer_Success (snd (AppendEntries now req r))")
    case False
    then have "log_r r' = log_r r" "commitIndex r' = commitIndex r"
      by (simp_all add: r'_def AppendEntries_log(1) AppendEntries_commit_fail)
    moreover have "logBaseIndex r' = logBaseIndex r" by (simp add: r'_def AppendEntries_log(2))
    ultimately show ?thesis using assms(3) by (auto simp: entryAt_eq lastLogIndex_def)
  next
    case True
    have base: "logBaseIndex r' = logBaseIndex r" by (simp add: r'_def AppendEntries_log(2))
    have wf': "wf_log r'" unfolding r'_def using assms(1,2) by (rule wf_AppendEntries)
    have kept: "entryAt r' i = entryAt r i" if i: "i \<le> commitIndex r" for i
      using assms(1,2) True
    proof (cases rule: AppendEntries_entryAt)
      case same
      with base show ?thesis by (simp add: entryAt_eq r'_def)
    next
      case (split c)
      let ?i0 = "int_of32 (ae_PrevLogIndex req) + 1"
      let ?e = "ae_Entries req ! nat (c - ?i0)"
      have "int_of32 (pe_Index ?e) = c" "?e \<in> set (ae_Entries req)"
        using assms(2) split(1,2) contiguous_nth [of ?i0 "map toLogEntry (ae_Entries req)" "nat (c - ?i0)"]
        by (auto simp: wf_request_def)
      with assms(4) split(8) have "c \<le> commitIndex r \<Longrightarrow> entryAt r c = None" by auto
      with split(3) assms(1,3) have "commitIndex r < c"
        using entryAt_ne_None_iff [OF assms(1), of c] by linarith
      with i split(5) show ?thesis by (simp add: r'_def)
    qed
    have "commitIndex r \<le> lastLogIndex r'"
    proof (cases "logBaseIndex r \<le> commitIndex r")
      case True
      with assms(1,3) kept [of "commitIndex r"] show ?thesis
        using entryAt_ne_None_iff [OF assms(1), of "commitIndex r"]
          entryAt_ne_None_iff [OF wf', of "commitIndex r"] by simp
    qed (use base_le_last [OF wf'] base in simp)
    with kept AppendEntries_commit [OF True] show ?thesis by (auto simp: r'_def)
  qed
  then show "i \<le> commitIndex r \<Longrightarrow> entryAt r' i = entryAt r i"
    "commitIndex r \<le> commitIndex r'" "commitIndex r' \<le> lastLogIndex r'" by blast+
qed

text \<open>C14: a request that agrees in term with the committed entries it overlaps cannot
  remove or change one: every entry up to the commit index stays, the commit index does not
  go back, and it stays within the log.\<close>

theorem AppendEntries_committed_stable:
  fixes now :: time
  assumes "wf_log r" and "wf_request req" and "commitIndex r \<le> lastLogIndex r"
    and "\<forall>e \<in> set (ae_Entries req). int_of32 (pe_Index e) \<le> commitIndex r \<longrightarrow>
           (\<forall>x. entryAt r (int_of32 (pe_Index e)) = Some x \<longrightarrow> Term x = int_of32 (pe_Term e))"
  defines "r' \<equiv> fst (AppendEntries now req r)"
  shows "(\<forall>i \<le> commitIndex r. entryAt r' i = entryAt r i) \<and>
         commitIndex r \<le> commitIndex r' \<and> commitIndex r' \<le> lastLogIndex r'"
  using AppendEntries_committed [OF assms(1-4), where now = now] by (simp add: r'_def)

theorem AppendEntries_committed_stable_witness:
  "let r = follower4\<lparr>commitIndex := 5\<rparr>; r' = fst (AppendEntries 9 repair4 r) in
   entryAt r' 5 = entryAt r 5 \<and> commitIndex r' \<le> lastLogIndex r'"
proof -
  let ?r = "follower4\<lparr>commitIndex := 5\<rparr>"
  have "wf_log ?r" using follower4_facts(1) by (simp add: wf_log_def)
  moreover have "wf_request repair4" using wf_node4 follower4_facts(5) by (rule wf_request_sentBy)
  moreover have "commitIndex ?r \<le> lastLogIndex ?r"
    by (simp add: lastLogIndex_def follower4_def newRaft_def)
  moreover have "\<forall>e \<in> set (ae_Entries repair4). int_of32 (pe_Index e) \<le> commitIndex ?r \<longrightarrow>
       (\<forall>x. entryAt ?r (int_of32 (pe_Index e)) = Some x \<longrightarrow> Term x = int_of32 (pe_Term e))"
    by (simp add: repair4_def int_of32_def)
  ultimately show ?thesis
    using AppendEntries_committed_stable [of ?r repair4 9] by (simp add: Let_def)
qed

subsection \<open>The read lease\<close>

text \<open>The read lease of a follower is bounded by its last contact with a leader. When
  a node that is not leader takes a message of a leader of its configuration with a term not
  behind its own, it can serve local reads exactly while it is a follower and less than four
  seconds have passed, until the next event.\<close>

theorem AppendEntries_lease:
  assumes "isKnownNode r (ae_LeaderId req)" and "term_r r \<le> int_of32 (ae_Term req)"
    and "state r \<noteq> Leader" and "\<not> removedFromCluster r"
  shows "HasReadLease later (fst (AppendEntries now req r)) \<longleftrightarrow>
           (state r = Follower \<or> term_r r < int_of32 (ae_Term req)) \<and> later - now < 4000000000"
  using assms by (auto simp: AppendEntries_def HasReadLease_def Let_def maxLeaseAge_def isKnownNode_def)

theorem AppendEntries_lease_witness:
  "HasReadLease 4000000008 (fst (AppendEntries 9 repair4 follower4)) \<and>
   \<not> HasReadLease 4000000009 (fst (AppendEntries 9 repair4 follower4))"
proof -
  have "isKnownNode follower4 (ae_LeaderId repair4)" "term_r follower4 \<le> int_of32 (ae_Term repair4)"
    "state follower4 = Follower" "\<not> removedFromCluster follower4"
    by (simp_all add: isKnownNode_def follower4_def newRaft_def repair4_def int_of32_def)
  with AppendEntries_lease [of follower4 repair4 _ 9] show ?thesis by simp
qed

end
