(* ===== verification/Raft_Config.thy ===== *)
theory Raft_Config
  imports Raft_Replication
begin

section \<open>Membership changes\<close>

text \<open>
  The configuration management of \<^verbatim>\<open>raft.go\<close>: the command that carries a change in the
  log, applying it to the peer list, replaying the log's changes at start-up, and proposing
  one. The theorems: a change survives the trip through the log, one change at a time keeps
  every majority of the old configuration overlapping every majority of the new one, and
  replaying the changes twice is replaying them once.
\<close>

subsection \<open>The command in the log\<close>

record configCmd =
  cc_Op :: int
  cc_Type :: string
  cc_NodeID :: string

definition enc_configCmd :: "configCmd \<Rightarrow> json" where
  "enc_configCmd c =
     JObj [(''op'', enc_int (cc_Op c)), (''type'', JStr (cc_Type c)), (''node_id'', JStr (cc_NodeID c))]"

definition put_configCmd :: "string \<Rightarrow> json \<Rightarrow> configCmd \<Rightarrow> configCmd option" where
  "put_configCmd f v c =
     (if f = ''op'' then map_option (\<lambda>i. c\<lparr>cc_Op := i\<rparr>) (dec_int v (cc_Op c))
      else if f = ''type'' then map_option (\<lambda>s. c\<lparr>cc_Type := s\<rparr>) (dec_string v (cc_Type c))
      else map_option (\<lambda>s. c\<lparr>cc_NodeID := s\<rparr>) (dec_string v (cc_NodeID c)))"

definition dec_configCmd :: "json \<Rightarrow> configCmd option" where
  "dec_configCmd =
     dec_struct [''op'', ''type'', ''node_id''] put_configCmd
       \<lparr>cc_Op = 0, cc_Type = [], cc_NodeID = []\<rparr>"

fun changeName :: "ConfigChangeType \<Rightarrow> string" where
  "changeName ConfigAddNode = ''add''"
| "changeName ConfigRemoveNode = ''remove''"

definition configData :: "ConfigChangeType \<Rightarrow> NodeID \<Rightarrow> bytes" where
  "configData ct n =
     json_print (enc_configCmd
       \<lparr>cc_Op = CommandType_int CmdConfigChange, cc_Type = changeName ct, cc_NodeID = n\<rparr>)"

subsection \<open>Applying a change\<close>

definition applyConfigChangeLocked :: "time \<Rightarrow> bool \<Rightarrow> NodeID \<Rightarrow> raft \<Rightarrow> raft" where
  "applyConfigChangeLocked now isAdd nodeID r =
     (if nodeID = id_r r then
        if isAdd then r
        else saveMeta (r\<lparr>removedFromCluster := True, state := Follower, leader := [],
               votedFor := [], votes := 0, electionReset := now, peers := [],
               nextIndex := Map.empty, matchIndex := Map.empty\<rparr>)
      else if isAdd then
        saveMeta (if nodeID \<in> set (peers r) then r
                  else r\<lparr>peers := peers r @ [nodeID],
                         nextIndex := (nextIndex r)(nodeID \<mapsto> lastLogIndex r + 1),
                         matchIndex := (matchIndex r)(nodeID \<mapsto> 0)\<rparr>)
      else
        saveMeta (r\<lparr>peers := filter (\<lambda>p. p \<noteq> nodeID) (peers r),
                    nextIndex := (nextIndex r)(nodeID := None),
                    matchIndex := (matchIndex r)(nodeID := None),
                    pipelineSemaphores := (pipelineSemaphores r)(nodeID := None)\<rparr>))"

definition handleConfigChangeIfNeeded :: "time \<Rightarrow> LogEntry \<Rightarrow> raft \<Rightarrow> raft" where
  "handleConfigChangeIfNeeded now entry r =
     (case Unmarshal dec_configCmd (Data entry) of
        None \<Rightarrow> r
      | Some cmd \<Rightarrow>
          if cc_Op cmd = CommandType_int CmdConfigChange
          then applyConfigChangeLocked now (cc_Type cmd = ''add'') (cc_NodeID cmd) r
          else r)"

text \<open>The body of the loop of \<^verbatim>\<open>replayConfigChanges\<close> and the loop.\<close>

definition replayStep :: "time \<Rightarrow> raft \<Rightarrow> int \<Rightarrow> raft" where
  "replayStep now r idx =
     (case entryAt r idx of
        None \<Rightarrow> r
      | Some entry \<Rightarrow>
          (case Unmarshal dec_configCmd (Data entry) of
             None \<Rightarrow> r
           | Some cmd \<Rightarrow>
               if cc_Op cmd = CommandType_int CmdConfigChange
               then applyConfigChangeLocked now (cc_Type cmd = ''add'') (cc_NodeID cmd) r
               else r))"

definition replayConfigChanges :: "time \<Rightarrow> raft \<Rightarrow> raft" where
  "replayConfigChanges now r =
     (let startIdx = (if logBaseIndex r + 1 < 1 then 1 else logBaseIndex r + 1)
      in foldl (replayStep now) r [startIdx..lastLogIndex r])"

subsection \<open>Proposing a change\<close>

definition proposeConfigChange :: "ConfigChangeType \<Rightarrow> NodeID \<Rightarrow> raft \<Rightarrow> raft \<times> (error + int)" where
  "proposeConfigChange changeType nodeID r =
     (if state r \<noteq> Leader then (r, Inl ErrNotLeader)
      else if changeType = ConfigRemoveNode \<and> peers r = []
      then (r, Inl ''cannot remove last peer'')
      else if changeType = ConfigRemoveNode \<and> nodeID \<notin> set (peers r)
      then (r, Inl ''node not in cluster'')
      else
        let index = lastLogIndex r + 1;
            r1 = r\<lparr>log_r := log_r r @
                    [\<lparr>Index = index, Term = term_r r, Data = configData changeType nodeID\<rparr>]\<rparr>
        in case saveLogErr r1 of
             Some err \<Rightarrow> (saveLog r1, Inl err)
           | None \<Rightarrow> (saveLog r1, Inr index))"

subsection \<open>Frames\<close>

lemma applyConfig_frame [simp, frame_simps]:
  "id_r (applyConfigChangeLocked now a n r) = id_r r"
  "term_r (applyConfigChangeLocked now a n r) = term_r r"
  "log_r (applyConfigChangeLocked now a n r) = log_r r"
  "logBaseIndex (applyConfigChangeLocked now a n r) = logBaseIndex r"
  "commitIndex (applyConfigChangeLocked now a n r) = commitIndex r"
  "lastApplied (applyConfigChangeLocked now a n r) = lastApplied r"
  "snapshot (applyConfigChangeLocked now a n r) = snapshot r"
  "applyCh (applyConfigChangeLocked now a n r) = applyCh r"
  "waiters (applyConfigChangeLocked now a n r) = waiters r"
  "closed (applyConfigChangeLocked now a n r) = closed r"
  "dataDir (applyConfigChangeLocked now a n r) = dataDir r"
  "snapshotter (applyConfigChangeLocked now a n r) = snapshotter r"
  by (simp_all add: applyConfigChangeLocked_def saveMeta_def)

lemma entryAt_applyConfig [simp]:
  "entryAt (applyConfigChangeLocked now a n r) = entryAt r"
  by (auto simp: entryAt_eq fun_eq_iff)

lemma keeps_applyConfig [keeps]: "keeps_vote r (applyConfigChangeLocked now a n r)"
  by (simp add: applyConfigChangeLocked_def keeps_vote_def)

lemma keeps_handleConfig [keeps]: "keeps_vote r (handleConfigChangeIfNeeded now e r)"
  by (auto simp: handleConfigChangeIfNeeded_def split: option.split intro: keeps)

lemma handleConfig_frame [simp, frame_simps]:
  "id_r (handleConfigChangeIfNeeded now e r) = id_r r"
  "term_r (handleConfigChangeIfNeeded now e r) = term_r r"
  "log_r (handleConfigChangeIfNeeded now e r) = log_r r"
  "logBaseIndex (handleConfigChangeIfNeeded now e r) = logBaseIndex r"
  "commitIndex (handleConfigChangeIfNeeded now e r) = commitIndex r"
  "lastApplied (handleConfigChangeIfNeeded now e r) = lastApplied r"
  "snapshot (handleConfigChangeIfNeeded now e r) = snapshot r"
  "applyCh (handleConfigChangeIfNeeded now e r) = applyCh r"
  "waiters (handleConfigChangeIfNeeded now e r) = waiters r"
  "closed (handleConfigChangeIfNeeded now e r) = closed r"
  "dataDir (handleConfigChangeIfNeeded now e r) = dataDir r"
  "snapshotter (handleConfigChangeIfNeeded now e r) = snapshotter r"
  by (simp_all add: handleConfigChangeIfNeeded_def split: option.split)

lemma keeps_proposeConfig [keeps]: "keeps_vote r (fst (proposeConfigChange ct n r))"
  by (auto simp: proposeConfigChange_def Let_def intro: keeps_vote_same split: option.split)

lemma wf_proposeConfig [wf_intros]:
  "wf_log r \<Longrightarrow> wf_log (fst (proposeConfigChange ct n r))"
  using wf_log_append [of r "\<lparr>Index = lastLogIndex r + 1, Term = term_r r, Data = configData ct n\<rparr>"]
  by (auto simp: proposeConfigChange_def Let_def wf_log_def split: option.split)

lemma wf_Propose [wf_intros]: "wf_log r \<Longrightarrow> wf_log (fst (Propose b r))"
  using wf_log_append [of r "\<lparr>Index = lastLogIndex r + 1, Term = term_r r, Data = b\<rparr>"]
  by (auto simp: Propose_def Let_def wf_log_def)

subsection \<open>A change survives the log\<close>

lemma changeName_utf8 [simp]: "utf8_valid (changeName ct)"
  by (cases ct) (simp_all add: utf8_valid_ascii)

lemma config_names [simp]: "utf8_valid ''op''" "utf8_valid ''type''" "utf8_valid ''node_id''"
  by (rule utf8_valid_ascii, simp)+

lemma Unmarshal_configData:
  assumes "utf8_valid n"
  shows "Unmarshal dec_configCmd (configData ct n) =
           Some \<lparr>cc_Op = 2, cc_Type = changeName ct, cc_NodeID = n\<rparr>"
proof -
  have "json_ok (enc_configCmd \<lparr>cc_Op = 2, cc_Type = changeName ct, cc_NodeID = n\<rparr>)"
    using assms by (simp add: enc_configCmd_def)
  then show ?thesis
    by (simp add: configData_def dec_configCmd_def dec_struct_def put_configCmd_def
        dec_string_def enc_configCmd_def del: json_print.simps)
qed

lemma changeName_add [simp]: "changeName ct = ''add'' \<longleftrightarrow> ct = ConfigAddNode"
  by (cases ct) simp_all

text \<open>A membership change proposed by a leader is what every node applies when the entry
  it made reaches the applier, for any node name that is valid UTF-8.\<close>

theorem config_change_roundtrip:
  assumes "utf8_valid n" and "Data e = configData ct n"
  shows "handleConfigChangeIfNeeded now e r =
           applyConfigChangeLocked now (ct = ConfigAddNode) n r"
  using assms by (simp add: handleConfigChangeIfNeeded_def Unmarshal_configData)

theorem config_change_roundtrip_witness:
  "peers (handleConfigChangeIfNeeded 0
      \<lparr>Index = 7, Term = 2, Data = configData ConfigAddNode ''n9''\<rparr> node4) = [''n2'', ''n3'', ''n9'']"
proof -
  have "utf8_valid ''n9''" by (simp add: utf8_valid_ascii)
  from config_change_roundtrip [OF this, of _ ConfigAddNode] show ?thesis
    by (simp add: applyConfigChangeLocked_def) (simp add: node4_def newRaft_def)
qed

subsection \<open>Configurations and majorities\<close>

definition members :: "raft \<Rightarrow> NodeID set" where
  "members r = insert (id_r r) (set (peers r))"

text \<open>Peers are distinct and do not include the node itself.\<close>

definition wf_peers :: "raft \<Rightarrow> bool" where
  "wf_peers r \<longleftrightarrow> distinct (peers r) \<and> id_r r \<notin> set (peers r)"

definition quorum_of :: "raft \<Rightarrow> NodeID set \<Rightarrow> bool" where
  "quorum_of r Q \<longleftrightarrow> Q \<subseteq> members r \<and> majority r \<le> int (card Q)"

lemma card_members: "wf_peers r \<Longrightarrow> card (members r) = length (peers r) + 1"
  by (simp add: members_def wf_peers_def distinct_card)

lemma wf_peers_apply [wf_intros]: "wf_peers r \<Longrightarrow> wf_peers (applyConfigChangeLocked now a n r)"
  by (auto simp: wf_peers_def applyConfigChangeLocked_def)

lemma members_apply:
  "n \<noteq> id_r r \<Longrightarrow> members (applyConfigChangeLocked now a n r) =
     (if a then insert n (members r) else members r - {n})"
  by (auto simp: members_def applyConfigChangeLocked_def)

lemma quorum_card: "wf_peers r \<Longrightarrow> quorum_of r Q \<Longrightarrow> card (members r) < 2 * card Q"
  by (auto simp: quorum_of_def card_members majority_def Let_def)

lemma finite_members [simp]: "finite (members r)"
  by (simp add: members_def)

lemma overlap_by_count:
  assumes "A \<subseteq> U" and "B \<subseteq> U" and "finite U" and "card U < card A + card B"
  shows "A \<inter> B \<noteq> {}"
proof
  assume "A \<inter> B = {}"
  with assms(1-3) have "card A + card B = card (A \<union> B)"
    by (metis card_Un_disjoint rev_finite_subset)
  also have "\<dots> \<le> card U" using assms(1-3) by (simp add: card_mono)
  finally show False using assms(4) by simp
qed

text \<open>C16: adding or removing one node at a time is safe: every majority of the
  configuration before the change shares a node with every majority of the configuration
  after it, so no two leaders can be elected, and no two commits made, by disjoint sets of
  nodes across the change.\<close>

theorem config_change_quorums_overlap:
  assumes "wf_peers r" and "n \<noteq> id_r r"
    and "quorum_of r Q" and "quorum_of (applyConfigChangeLocked now isAdd n r) Q'"
  shows "Q \<inter> Q' \<noteq> {}"
proof -
  let ?r' = "applyConfigChangeLocked now isAdd n r"
  let ?U = "members r \<union> members ?r'"
  have q: "card (members r) < 2 * card Q" using assms(1,3) by (rule quorum_card)
  have q': "card (members ?r') < 2 * card Q'"
    using wf_peers_apply [OF assms(1)] assms(4) by (rule quorum_card)
  have m: "members ?r' = (if isAdd then insert n (members r) else members r - {n})"
    using assms(2) by (rule members_apply)
  then have "2 * card ?U \<le> card (members r) + card (members ?r') + 1"
    by (cases "n \<in> members r") (auto simp: insert_absorb Un_absorb2 card_Diff_singleton)
  with q q' have "card ?U < card Q + card Q'" by linarith
  moreover have "Q \<subseteq> ?U" "Q' \<subseteq> ?U" using assms(3,4) by (auto simp: quorum_of_def)
  ultimately show ?thesis by (intro overlap_by_count [of _ ?U]) simp_all
qed

theorem config_change_quorums_overlap_witness:
  "quorum_of node4 {''n1'', ''n2''} \<and>
   quorum_of (applyConfigChangeLocked 0 True ''n9'' node4) {''n2'', ''n3'', ''n9''} \<and>
   {''n1'', ''n2''} \<inter> {''n2'', ''n3'', ''n9''} \<noteq> ({} :: NodeID set)"
proof -
  have "wf_peers node4" "''n9'' \<noteq> id_r node4" by (simp_all add: wf_peers_def node4_def newRaft_def)
  moreover have "quorum_of node4 {''n1'', ''n2''}"
    by (simp add: quorum_of_def members_def majority_def node4_def newRaft_def)
  moreover have "quorum_of (applyConfigChangeLocked 0 True ''n9'' node4) {''n2'', ''n3'', ''n9''}"
    by (simp add: quorum_of_def members_def majority_def applyConfigChangeLocked_def)
       (simp add: node4_def newRaft_def)
  ultimately show ?thesis
    using config_change_quorums_overlap [of node4 "''n9''" "{''n1'', ''n2''}" 0 True] by blast
qed

subsection \<open>Replaying the log's changes\<close>

definition changeAt :: "raft \<Rightarrow> int \<Rightarrow> (bool \<times> NodeID) option" where
  "changeAt r i =
     (case entryAt r i of None \<Rightarrow> None
      | Some e \<Rightarrow>
          (case Unmarshal dec_configCmd (Data e) of None \<Rightarrow> None
           | Some c \<Rightarrow> if cc_Op c = 2 then Some (cc_Type c = ''add'', cc_NodeID c) else None))"

definition configChanges :: "raft \<Rightarrow> (bool \<times> NodeID) list" where
  "configChanges r = List.map_filter (changeAt r) [max 1 (logBaseIndex r + 1)..lastLogIndex r]"

definition applyChanges :: "time \<Rightarrow> (bool \<times> NodeID) list \<Rightarrow> raft \<Rightarrow> raft" where
  "applyChanges now cs r = foldl (\<lambda>r (a, n). applyConfigChangeLocked now a n r) r cs"

lemma applyChanges_simps [simp]:
  "applyChanges now [] r = r"
  "applyChanges now ((a, n) # cs) r = applyChanges now cs (applyConfigChangeLocked now a n r)"
  by (simp_all add: applyChanges_def)

lemma applyChanges_log [simp]:
  "log_r (applyChanges now cs r) = log_r r" "logBaseIndex (applyChanges now cs r) = logBaseIndex r"
  "id_r (applyChanges now cs r) = id_r r" "term_r (applyChanges now cs r) = term_r r"
  "commitIndex (applyChanges now cs r) = commitIndex r"
  "lastApplied (applyChanges now cs r) = lastApplied r"
  "snapshot (applyChanges now cs r) = snapshot r"
  "dataDir (applyChanges now cs r) = dataDir r"
  by (induction cs arbitrary: r) auto

lemma changeAt_applyChanges [simp]: "changeAt (applyChanges now cs r) = changeAt r"
proof -
  have "entryAt (applyChanges now cs r) = entryAt r" by (auto simp: entryAt_eq fun_eq_iff)
  then show ?thesis by (simp add: changeAt_def fun_eq_iff)
qed

lemma replayStep_change:
  "replayStep now r i = (case changeAt r i of None \<Rightarrow> r | Some (a, n) \<Rightarrow> applyConfigChangeLocked now a n r)"
  by (auto simp: replayStep_def changeAt_def split: option.splits)

lemma replay_fold:
  "foldl (replayStep now) r is = applyChanges now (List.map_filter (changeAt r) is) r"
proof (induction "is" arbitrary: r)
  case (Cons i "is")
  have "changeAt (applyConfigChangeLocked now a n r) = changeAt r" for a n
    using changeAt_applyChanges [of now "[(a, n)]" r] by simp
  with Cons show ?case
    by (auto simp: replayStep_change map_filter_simps split: option.split)
qed (simp add: map_filter_simps)

lemma replayConfigChanges_alt:
  "replayConfigChanges now r = applyChanges now (configChanges r) r"
  by (auto simp: replayConfigChanges_def configChanges_def replay_fold Let_def max_def)

text \<open>Membership of a node after a list of changes: the last change that names it decides.\<close>

lemma member_applyChanges:
  assumes "(False, id_r r) \<notin> set cs" and "p \<noteq> id_r r"
  shows "p \<in> set (peers (applyChanges now cs r)) \<longleftrightarrow>
    (case find (\<lambda>(a, n). n = p) (rev cs) of None \<Rightarrow> p \<in> set (peers r) | Some (a, n) \<Rightarrow> a)"
  using assms
proof (induction cs arbitrary: r)
  case (Cons c cs)
  obtain a n where c: "c = (a, n)" by fastforce
  have f: "find P (xs @ [x]) = (case find P xs of None \<Rightarrow> if P x then Some x else None | r \<Rightarrow> r)"
    for P :: "bool \<times> NodeID \<Rightarrow> bool" and xs x by (induction xs) auto
  from Cons c show ?case
    by (auto simp: f applyConfigChangeLocked_def split: option.splits)
qed simp

lemma peers_not_self:
  "id_r r \<notin> set (peers r) \<Longrightarrow> id_r r \<notin> set (peers (applyChanges now cs r))"
proof (induction cs arbitrary: r)
  case (Cons c cs)
  obtain a n where c: "c = (a, n)" by fastforce
  from Cons.prems have "id_r r \<notin> set (peers (applyConfigChangeLocked now a n r))"
    by (auto simp: applyConfigChangeLocked_def)
  with Cons.IH [of "applyConfigChangeLocked now a n r"] show ?case by (simp add: c)
qed simp

lemma find_rev_prefix:
  "find P (rev cs) = None \<Longrightarrow> find P (rev (take k cs)) = None"
  by (auto simp: find_None_iff dest: in_set_takeD)

text \<open>C21: a restart finds the configuration again. Whatever prefix of the log's membership
  changes was already applied and saved when the node stopped, replaying all of them on the
  saved peers gives the configuration that replaying them on the original peers gives, as
  long as the log does not remove the node itself.\<close>

theorem replay_after_prefix:
  assumes "(False, id_r r) \<notin> set (configChanges r)" and "id_r r \<notin> set (peers r)"
  shows "set (peers (replayConfigChanges now (applyChanges now (take k (configChanges r)) r))) =
         set (peers (replayConfigChanges now r))"
proof -
  let ?cs = "configChanges r" and ?s = "applyChanges now (take k (configChanges r)) r"
  have same: "configChanges ?s = ?cs"
    by (simp add: configChanges_def lastLogIndex_def)
  have pre: "(False, id_r r) \<notin> set (take k ?cs)" using assms(1) by (auto dest: in_set_takeD)
  have "p \<in> set (peers (applyChanges now ?cs ?s)) \<longleftrightarrow> p \<in> set (peers (applyChanges now ?cs r))" for p
  proof (cases "p = id_r r")
    case True
    then show ?thesis
      using peers_not_self [of ?s now ?cs] peers_not_self [of r now] assms(2) by simp
  next
    case False
    with assms(1) pre show ?thesis
      using find_rev_prefix [of "\<lambda>(a, n). n = p" ?cs k]
      by (auto simp: member_applyChanges split: option.split)
  qed
  then show ?thesis by (auto simp: replayConfigChanges_alt same)
qed

definition reconfigured4 :: raft where
  "reconfigured4 = node4\<lparr>log_r := take 1 (log_r node4) @
     [\<lparr>Index = 5, Term = 2, Data = configData ConfigAddNode ''n9''\<rparr>,
      \<lparr>Index = 6, Term = 2, Data = configData ConfigRemoveNode ''n3''\<rparr>]\<rparr>"

lemma configChanges_reconfigured4: "configChanges reconfigured4 = [(True, ''n9''), (False, ''n3'')]"
proof -
  have u: "utf8_valid ''n9''" "utf8_valid ''n3''" by (simp_all add: utf8_valid_ascii)
  have "[5..6] = [5, 6 :: int]" by (simp add: upto.simps)
  then show ?thesis
    using u by (simp add: configChanges_def changeAt_def map_filter_simps reconfigured4_def node4_def
        newRaft_def lastLogIndex_def entryAt_eq Unmarshal_configData)
qed

theorem replay_after_prefix_witness:
  "set (peers (replayConfigChanges 0 (applyChanges 0 [(True, ''n9'')] reconfigured4))) =
   set (peers (replayConfigChanges 0 reconfigured4))"
proof -
  have "id_r reconfigured4 = ''n1''" "id_r reconfigured4 \<notin> set (peers reconfigured4)"
    by (simp_all add: reconfigured4_def node4_def newRaft_def)
  with replay_after_prefix [of reconfigured4 0 1] configChanges_reconfigured4 show ?thesis by simp
qed

end
