(* ===== verification/Raft_Snapshot.thy ===== *)
theory Raft_Snapshot
  imports Raft_Config
begin

section \<open>Snapshots and log compaction\<close>

text \<open>
  \<^verbatim>\<open>createSnapshotLocked\<close> and \<^verbatim>\<open>ForceSnapshot\<close> of \<^verbatim>\<open>raft.go\<close> and the
  \<^verbatim>\<open>InstallSnapshot\<close> handler of \<^verbatim>\<open>rpc.go\<close>. What the registered callback returns is an
  argument. Compaction is shown to be invisible to everything that reads the log from the
  snapshot's index on, and to happen only once the snapshot is on disk.
\<close>

definition SetSnapshotter :: "raft \<Rightarrow> raft" where
  "SetSnapshotter r = r\<lparr>snapshotter := True\<rparr>"

definition SetSnapshotRestorer :: "raft \<Rightarrow> raft" where
  "SetSnapshotRestorer r = r\<lparr>restorer := True\<rparr>"

text \<open>The new log: a dummy at the boundary, then the entries behind it.\<close>

definition compactLog :: "int \<Rightarrow> int \<Rightarrow> LogEntry list \<Rightarrow> LogEntry list" where
  "compactLog idx trm lg =
     \<lparr>Index = idx, Term = trm, Data = []\<rparr> # filter (\<lambda>e. idx < Index e) lg"

definition createSnapshotLocked :: "time \<Rightarrow> (error + bytes) \<Rightarrow> raft \<Rightarrow> raft" where
  "createSnapshotLocked unix result r =
     (if \<not> snapshotter r then r
      else case entryAt r (lastApplied r) of
        None \<Rightarrow> r
      | Some entry \<Rightarrow>
          if lastApplied r < 0 then r
          else case result of
            Inl err \<Rightarrow> r
          | Inr stateBytes \<Rightarrow>
              let snap = \<lparr>LastIncludedIndex = lastApplied r, LastIncludedTerm = Term entry,
                          CreatedAt = unix, SnapData = stateBytes\<rparr>
              in case snap_Save (snapPath r) snap (fs_r r) of
                   (d, Some err) \<Rightarrow> r\<lparr>fs_r := d\<rparr>
                 | (d, None) \<Rightarrow>
                     saveLog (r\<lparr>fs_r := d, snapshot := Some snap,
                        log_r := compactLog (LastIncludedIndex snap) (LastIncludedTerm snap) (log_r r),
                        logBaseIndex := LastIncludedIndex snap\<rparr>))"

definition ForceSnapshot :: "time \<Rightarrow> (error + bytes) \<Rightarrow> raft \<Rightarrow> raft" where
  "ForceSnapshot unix result r = createSnapshotLocked unix result r"

definition InstallSnapshot ::
  "time \<Rightarrow> InstallSnapshotRequest \<Rightarrow> raft \<Rightarrow> raft \<times> InstallSnapshotResponse \<times> effect list"
where
  "InstallSnapshot unix req r =
     (let resp = \<lparr>isr_Term = int32 (term_r r)\<rparr> in
      if int_of32 (is_Term req) < term_r r then (r, resp, [])
      else
        let r1 = (if term_r r < int_of32 (is_Term req)
                  then adoptTerm (int_of32 (is_Term req)) r else r);
            snap = \<lparr>LastIncludedIndex = int_of32 (is_LastIncludedIndex req),
                    LastIncludedTerm = int_of32 (is_LastIncludedTerm req),
                    CreatedAt = unix, SnapData = is_Data req\<rparr>;
            r2 = r1\<lparr>fs_r := fst (snap_Save (snapPath r1) snap (fs_r r1)), snapshot := Some snap,
                    log_r := compactLog (LastIncludedIndex snap) (LastIncludedTerm snap) (log_r r1),
                    logBaseIndex := LastIncludedIndex snap\<rparr>;
            r3 = (saveLog r2)\<lparr>commitIndex := LastIncludedIndex snap,
                              lastApplied := LastIncludedIndex snap\<rparr>
        in (r3, resp, if restorer r3 then [CallRestorer (SnapData snap)] else []))"

subsection \<open>Compaction of a well-formed log\<close>

lemma compactLog_wf:
  assumes "contiguous b lg" and "b \<le> idx + 1"
  shows "contiguous idx (compactLog idx trm lg)"
    and "compactLog idx trm lg =
           \<lparr>Index = idx, Term = trm, Data = []\<rparr> # drop (nat (idx + 1 - b)) lg"
proof -
  have f: "filter (\<lambda>e. idx < Index e) lg = drop (nat (idx + 1 - b)) lg"
    using contiguous_filter_ge [OF assms(1), of "idx + 1"] by (simp add: zless_iff_Suc_zadd add1_zle_eq)
  then show eq: "compactLog idx trm lg =
           \<lparr>Index = idx, Term = trm, Data = []\<rparr> # drop (nat (idx + 1 - b)) lg"
    by (simp add: compactLog_def)
  have "contiguous (idx + 1) (drop (nat (idx + 1 - b)) lg)"
    using contiguous_drop [OF assms(1), of "nat (idx + 1 - b)"] assms(2)
    by (cases "nat (idx + 1 - b) \<le> length lg") simp_all
  then show "contiguous idx (compactLog idx trm lg)" by (simp add: eq)
qed

text \<open>Reading a compacted log.\<close>

lemma entryAt_compact:
  assumes "wf_log r" and "logBaseIndex r \<le> idx + 1"
    and "log_r r' = compactLog idx trm (log_r r)" and "logBaseIndex r' = idx"
  shows "entryAt r' i =
     (if i < idx then None else if i = idx then Some \<lparr>Index = idx, Term = trm, Data = []\<rparr>
      else entryAt r i)"
proof -
  let ?b = "logBaseIndex r"
  have lg: "log_r r' = \<lparr>Index = idx, Term = trm, Data = []\<rparr> # drop (nat (idx + 1 - ?b)) (log_r r)"
    using compactLog_wf(2) [of ?b "log_r r" idx] assms(1-3) by (simp add: wf_log_def)
  show ?thesis
  proof (cases "idx < i")
    case True
    then obtain k where k: "i = idx + 1 + int k" using zless_iff_Suc_zadd [of idx i] by auto
    have "nat (i - ?b) = nat (idx + 1 - ?b) + k" using assms(2) k by simp
    moreover have "nat (i - idx) = Suc k" using k by simp
    ultimately show ?thesis using True assms(2,4) k
      by (auto simp: entryAt_eq lg nth_Cons)
  qed (simp add: entryAt_eq lg assms(4))
qed

lemma lastLog_compact:
  assumes "wf_log r" and "logBaseIndex r \<le> idx" and "idx \<le> lastLogIndex r"
    and "log_r r' = compactLog idx trm (log_r r)" and "logBaseIndex r' = idx"
    and "entryAt r idx = Some e" and "Term e = trm"
  shows "wf_log r' \<and> lastLogIndex r' = lastLogIndex r \<and> lastLogTerm r' = lastLogTerm r"
proof -
  let ?b = "logBaseIndex r"
  have lg: "log_r r' = \<lparr>Index = idx, Term = trm, Data = []\<rparr> # drop (nat (idx + 1 - ?b)) (log_r r)"
    and c: "contiguous idx (log_r r')"
    using compactLog_wf [of ?b "log_r r" idx] assms(1,2,4) by (simp_all add: wf_log_def)
  have wf: "wf_log r'" using c lg assms(1,2,5) by (simp add: wf_log_def)
  moreover have li: "lastLogIndex r' = lastLogIndex r"
    using wf assms(1,2,3,5) lg by (auto simp: lastLogIndex_wf)
  moreover have "Term (last (log_r r')) = Term (last (log_r r))"
    using entryAt_last [OF wf] entryAt_last [OF assms(1)] li assms(2,3,6,7)
      entryAt_compact [OF assms(1) _ assms(4,5), of "lastLogIndex r"]
    by (cases "lastLogIndex r = idx") (auto dest!: arg_cong [of _ _ Term])
  ultimately show ?thesis using assms(1) by (simp add: lastLogTerm_def wf_log_def)
qed

subsection \<open>Creating a snapshot\<close>

lemma createSnapshot_cases:
  obtains (none) d where "createSnapshotLocked unix res r = r\<lparr>fs_r := d\<rparr>"
    | (taken) e b d where "entryAt r (lastApplied r) = Some e" "res = Inr b" "0 \<le> lastApplied r"
      "snap_Save (snapPath r) \<lparr>LastIncludedIndex = lastApplied r, LastIncludedTerm = Term e,
          CreatedAt = unix, SnapData = b\<rparr> (fs_r r) = (d, None)"
      "createSnapshotLocked unix res r =
         saveLog (r\<lparr>fs_r := d,
           snapshot := Some \<lparr>LastIncludedIndex = lastApplied r, LastIncludedTerm = Term e,
             CreatedAt = unix, SnapData = b\<rparr>,
           log_r := compactLog (lastApplied r) (Term e) (log_r r), logBaseIndex := lastApplied r\<rparr>)"
proof -
  have id: thesis if "createSnapshotLocked unix res r = r"
    using none [of "fs_r r"] that by simp
  show thesis
  proof (cases "entryAt r (lastApplied r)")
    case (Some e)
    show thesis
    proof (cases "\<exists>b. snapshotter r \<and> 0 \<le> lastApplied r \<and> res = Inr b")
      case True
      then obtain b where b: "snapshotter r" "0 \<le> lastApplied r" "res = Inr b" by auto
      obtain d err where sv: "snap_Save (snapPath r) \<lparr>LastIncludedIndex = lastApplied r,
          LastIncludedTerm = Term e, CreatedAt = unix, SnapData = b\<rparr> (fs_r r) = (d, err)"
        by (rule prod.exhaust)
      show thesis
      proof (cases err)
        case None
        with taken [OF Some b(3,2), of d] b sv Some show thesis by (simp add: createSnapshotLocked_def)
      next
        case (Some x)
        with none [of d] b sv \<open>entryAt r (lastApplied r) = Some e\<close> show thesis
          by (simp add: createSnapshotLocked_def)
      qed
    qed (use id Some in \<open>auto simp: createSnapshotLocked_def split: sum.splits\<close>)
  qed (use id in \<open>simp add: createSnapshotLocked_def\<close>)
qed

lemma createSnapshot_frame [simp, frame_simps]:
  "id_r (createSnapshotLocked u s r) = id_r r" "peers (createSnapshotLocked u s r) = peers r"
  "state (createSnapshotLocked u s r) = state r" "term_r (createSnapshotLocked u s r) = term_r r"
  "votedFor (createSnapshotLocked u s r) = votedFor r"
  "removedFromCluster (createSnapshotLocked u s r) = removedFromCluster r"
  "commitIndex (createSnapshotLocked u s r) = commitIndex r"
  "lastApplied (createSnapshotLocked u s r) = lastApplied r"
  "applyCh (createSnapshotLocked u s r) = applyCh r"
  "waiters (createSnapshotLocked u s r) = waiters r"
  "closed (createSnapshotLocked u s r) = closed r"
  "dataDir (createSnapshotLocked u s r) = dataDir r" "leader (createSnapshotLocked u s r) = leader r"
  by (cases rule: createSnapshot_cases [of u s r]; simp)+

lemma keeps_createSnapshot [keeps]: "keeps_vote r (createSnapshotLocked u s r)"
  by (rule keeps_vote_same) simp_all

lemma createSnapshot_log:
  fixes unix :: time and res :: "error + bytes"
  assumes "wf_log r"
  defines "r' \<equiv> createSnapshotLocked unix res r"
  shows "wf_log r'" "lastLogIndex r' = lastLogIndex r" "lastLogTerm r' = lastLogTerm r"
    "map_option Term (entryAt r' (lastApplied r)) = map_option Term (entryAt r (lastApplied r))"
    "\<forall>i > lastApplied r. entryAt r' i = entryAt r i"
proof -
  have "wf_log r' \<and> lastLogIndex r' = lastLogIndex r \<and> lastLogTerm r' = lastLogTerm r \<and>
      map_option Term (entryAt r' (lastApplied r)) = map_option Term (entryAt r (lastApplied r)) \<and>
      (\<forall>i > lastApplied r. entryAt r' i = entryAt r i)"
  proof (cases rule: createSnapshot_cases [of unix res r])
    case (none d)
    then show ?thesis
      using assms(1) by (simp add: r'_def wf_log_def lastLogIndex_def lastLogTerm_def entryAt_eq)
  next
    case (taken e b d)
    have lg: "log_r r' = compactLog (lastApplied r) (Term e) (log_r r)" "logBaseIndex r' = lastApplied r"
      using taken(5) by (simp_all add: r'_def)
    note range = entryAt_SomeD(3,4) [OF taken(1) assms(1)]
    show ?thesis
      using lastLog_compact [OF assms(1) range lg taken(1) refl]
        entryAt_compact [OF assms(1) _ lg] range taken(1) by simp
  qed
  then show "wf_log r'" "lastLogIndex r' = lastLogIndex r" "lastLogTerm r' = lastLogTerm r"
    "map_option Term (entryAt r' (lastApplied r)) = map_option Term (entryAt r (lastApplied r))"
    "\<forall>i > lastApplied r. entryAt r' i = entryAt r i" by simp_all
qed

text \<open>C10: taking a snapshot is invisible to the protocol. It keeps the log well-formed, the
  last index and term, the term at the last applied index and every entry after it, whether
  the snapshotter fails, the write fails or all goes well.\<close>

theorem createSnapshot_invisible:
  fixes unix :: time and res :: "error + bytes"
  assumes "wf_log r"
  defines "r' \<equiv> createSnapshotLocked unix res r"
  shows "wf_log r' \<and> lastPos r' = lastPos r \<and>
         map_option Term (entryAt r' (lastApplied r)) = map_option Term (entryAt r (lastApplied r)) \<and>
         (\<forall>i > lastApplied r. entryAt r' i = entryAt r i)"
  using createSnapshot_log [OF assms(1), of unix res] by (simp add: r'_def lastPos_def)

theorem createSnapshot_invisible_witness:
  "let r = node4\<lparr>snapshotter := True, lastApplied := 5\<rparr>;
       r' = createSnapshotLocked 1 (Inr ''s'') r in
   logBaseIndex r' = 5 \<and> wf_log r' \<and> entryAt r' 6 = entryAt r 6"
proof -
  let ?r = "node4\<lparr>snapshotter := True, lastApplied := 5\<rparr>"
  have "wf_log ?r" using wf_node4 by (simp add: wf_log_def)
  moreover have "logBaseIndex (createSnapshotLocked 1 (Inr ''s'') ?r) = 5"
    by (simp add: createSnapshotLocked_def entryAt_def snap_Save_def node4_def newRaft_def Let_def
        del: json_print.simps)
  ultimately show ?thesis
    using createSnapshot_invisible [of ?r 1 "Inr ''s''"] by simp
qed

lemma saveLog_other:
  "q \<noteq> logPath r \<Longrightarrow> q \<noteq> logPath r @ ''.tmp'' \<Longrightarrow> files (fs_r (saveLog r)) q = files (fs_r r) q"
  by (simp add: saveLog_def log_SaveAll_def writeAtomic_other)

lemma snapPath_frame [simp]: "snapPath (saveLog r) = snapPath r"
  by (simp add: snapPath_def)

lemma snap_view_saveLog [simp]: "snap_view (snapPath r) (fs_r (saveLog r)) = snap_view (snapPath r) (fs_r r)"
proof -
  have "snapPath r \<noteq> logPath r" "snapPath r \<noteq> logPath r @ ''.tmp''"
    by (simp_all add: snapPath_def logPath_def)
  then show ?thesis by (simp add: snap_view_def saveLog_other)
qed

text \<open>Nothing is dropped from the log before the state it led to is on disk. Whenever
  taking a snapshot moves the start of the log, the snapshot file then holds the bytes the
  snapshotter returned, under the index and term of the last applied entry.\<close>

theorem createSnapshot_durable:
  assumes "logBaseIndex (createSnapshotLocked unix res r) \<noteq> logBaseIndex r"
    and "int64_range (lastApplied r)" and "int64_range unix"
    and "list_all (\<lambda>e. int64_range (Term e)) (log_r r)" and "wf_log r"
  shows "\<exists>b e. res = Inr b \<and> entryAt r (lastApplied r) = Some e \<and>
           snap_view (snapPath r) (fs_r (createSnapshotLocked unix res r)) =
             Some \<lparr>LastIncludedIndex = lastApplied r, LastIncludedTerm = Term e,
                   CreatedAt = unix, SnapData = b\<rparr>"
proof (cases rule: createSnapshot_cases [of unix res r])
  case (none d)
  with assms(1) show ?thesis by simp
next
  case (taken e b d)
  let ?snap = "\<lparr>LastIncludedIndex = lastApplied r, LastIncludedTerm = Term e, CreatedAt = unix, SnapData = b\<rparr>"
  let ?r1 = "r\<lparr>fs_r := d, snapshot := Some ?snap,
     log_r := compactLog (lastApplied r) (Term e) (log_r r), logBaseIndex := lastApplied r\<rparr>"
  have "e \<in> set (log_r r)" using taken(1) assms(5) by (rule entryAt_SomeD(2))
  with assms(2-4) have "snap_ok ?snap" by (auto simp: snap_ok_def list_all_iff)
  with taken(4) have "snap_view (snapPath r) d = Some ?snap" by (rule sstore.save_ok [rotated])
  moreover have "snap_view (snapPath r) (fs_r (saveLog ?r1)) = snap_view (snapPath r) d"
    using snap_view_saveLog [of ?r1] by (simp add: snapPath_def)
  ultimately show ?thesis using taken(1,2,5) by simp
qed

theorem createSnapshot_durable_witness:
  "let r = node4\<lparr>snapshotter := True, lastApplied := 5\<rparr> in
   snap_view (snapPath r) (fs_r (createSnapshotLocked 1 (Inr ''s'') r)) =
     Some \<lparr>LastIncludedIndex = 5, LastIncludedTerm = 1, CreatedAt = 1, SnapData = ''s''\<rparr>"
proof -
  let ?r = "node4\<lparr>snapshotter := True, lastApplied := 5\<rparr>"
  have "logBaseIndex (createSnapshotLocked 1 (Inr ''s'') ?r) \<noteq> logBaseIndex ?r"
    by (simp add: createSnapshotLocked_def entryAt_def snap_Save_def node4_def newRaft_def Let_def
        del: json_print.simps)
  moreover have "wf_log ?r" using wf_node4 by (simp add: wf_log_def)
  moreover have "list_all (\<lambda>e. int64_range (Term e)) (log_r ?r)" by (simp add: node4_def newRaft_def)
  moreover have "entryAt ?r 5 = Some \<lparr>Index = 5, Term = 1, Data = ''a''\<rparr>"
    by (simp add: entryAt_eq node4_def newRaft_def)
  ultimately show ?thesis using createSnapshot_durable [of 1 "Inr ''s''" ?r] by simp
qed

subsection \<open>Installing a snapshot\<close>

lemma InstallSnapshot_stale:
  "int_of32 (is_Term req) < term_r r \<Longrightarrow> fst (InstallSnapshot unix req r) = r"
  by (simp add: InstallSnapshot_def)

lemma InstallSnapshot_fields:
  fixes unix :: time
  assumes "term_r r \<le> int_of32 (is_Term req)"
  defines "r' \<equiv> fst (InstallSnapshot unix req r)"
  shows "log_r r' = compactLog (int_of32 (is_LastIncludedIndex req))
            (int_of32 (is_LastIncludedTerm req)) (log_r r)"
    and "logBaseIndex r' = int_of32 (is_LastIncludedIndex req)"
    and "commitIndex r' = int_of32 (is_LastIncludedIndex req)"
    and "lastApplied r' = int_of32 (is_LastIncludedIndex req)"
    and "id_r r' = id_r r" and "peers r' = peers r" and "term_r r' = int_of32 (is_Term req)"
    and "removedFromCluster r' = removedFromCluster r"
  using assms by (auto simp: r'_def InstallSnapshot_def Let_def)

lemma keeps_InstallSnapshot [keeps]: "keeps_vote r (fst (InstallSnapshot unix req r))"
  by (auto simp: InstallSnapshot_def Let_def keeps_vote_def)


definition install6 :: "int32 \<Rightarrow> InstallSnapshotRequest" where
  "install6 i = \<lparr>is_Term = 2, is_LeaderId = ''n1'', is_LastIncludedIndex = i, is_LastIncludedTerm = 1,
     is_Data = ''s''\<rparr>"


text \<open>The handler does not look at how old a snapshot is. A snapshot of the current term
  whose index is more than one below the base of the log leaves a log with a hole in it:
  entries are then found under wrong indexes. The commit index and the applied index go back
  with any snapshot below them.\<close>

theorem InstallSnapshot_old_breaks_log:
  fixes unix :: time
  assumes "wf_log r" and "term_r r \<le> int_of32 (is_Term req)"
    and "int_of32 (is_LastIncludedIndex req) + 1 < logBaseIndex r"
  defines "r' \<equiv> fst (InstallSnapshot unix req r)"
  shows "\<not> wf_log r' \<and> commitIndex r' < logBaseIndex r \<and> lastApplied r' < logBaseIndex r"
proof -
  note f = InstallSnapshot_fields [OF assms(2), of unix, folded r'_def]
  obtain e es where lg: "log_r r = e # es" "Index e = logBaseIndex r"
    using assms(1) by (cases "log_r r") (auto simp: wf_log_def)
  with assms(3) f(1) have "log_r r' ! 1 = e" "1 < length (log_r r')"
    by (simp_all add: compactLog_def)
  with lg(2) assms(3) f(2) contiguous_nth [of "logBaseIndex r'" "log_r r'" 1]
  have "\<not> contiguous (logBaseIndex r') (log_r r')" by auto
  then show ?thesis using f(3,4) assms(3) by (simp add: wf_log_def)
qed

theorem InstallSnapshot_old_breaks_log_witness:
  "wf_log follower4 \<and> \<not> wf_log (fst (InstallSnapshot 1 (install6 2) follower4))"
proof -
  have "term_r follower4 \<le> int_of32 (is_Term (install6 2))"
    "int_of32 (is_LastIncludedIndex (install6 2)) + 1 < logBaseIndex follower4"
    by (simp_all add: install6_def int_of32_def follower4_def newRaft_def)
  with InstallSnapshot_old_breaks_log [OF follower4_facts(1), of "install6 2" 1] follower4_facts(1)
  show ?thesis by simp
qed

end
