(* ===== verification/Raft_Applier.thy ===== *)
theory Raft_Applier
  imports Raft_Snapshot
begin

section \<open>Applying committed entries\<close>

text \<open>
  \<^verbatim>\<open>runApplier\<close> and \<^verbatim>\<open>AppliedWait\<close> of \<^verbatim>\<open>raft.go\<close>. The loop gives up the lock
  while it sends an entry to \<^verbatim>\<open>applyCh\<close>, so an iteration is three actions: \<open>applyBegin\<close>
  and \<open>applyEnd\<close> under the lock, \<open>applySend\<close> between them. \<open>runApplier\<close> is the inner loop run
  without interruption; it ends when nothing committed is left to apply or the next entry is
  missing, where the code sleeps and looks again. \<open>sn i\<close> is what the snapshotter would return
  at index \<open>i\<close>. A send that waits for room in the channel changes nothing until it goes
  through, so the queue has no bound here.
\<close>

definition AppliedWait :: "int \<Rightarrow> raft \<Rightarrow> raft \<times> nat" where
  "AppliedWait index r =
     (let ch = nextChan r; r1 = r\<lparr>nextChan := Suc ch\<rparr> in
      if index \<le> lastApplied r then (r1\<lparr>closed := insert ch (closed r1)\<rparr>, ch)
      else (r1\<lparr>waiters := (waiters r1)(index \<mapsto> ch)\<rparr>, ch))"

definition applyBegin :: "time \<Rightarrow> raft \<Rightarrow> raft \<times> LogEntry option" where
  "applyBegin now r =
     (if lastApplied r < commitIndex r then
        (let next = lastApplied r + 1 in
         case entryAt r next of
           None \<Rightarrow> (r, None)
         | Some entry \<Rightarrow>
             (handleConfigChangeIfNeeded now entry (r\<lparr>lastApplied := next\<rparr>), Some entry))
      else (r, None))"

definition applySend :: "LogEntry \<Rightarrow> raft \<Rightarrow> raft" where
  "applySend entry r = r\<lparr>applyCh := applyCh r @ [entry]\<rparr>"

definition closeWaiter :: "raft \<Rightarrow> raft" where
  "closeWaiter r =
     (case waiters r (lastApplied r) of
        None \<Rightarrow> r
      | Some ch \<Rightarrow> r\<lparr>closed := insert ch (closed r), waiters := (waiters r)(lastApplied r := None)\<rparr>)"

definition applyEnd :: "time \<Rightarrow> (int \<Rightarrow> error + bytes) \<Rightarrow> raft \<Rightarrow> raft" where
  "applyEnd unix sn r =
     (let r1 = closeWaiter r in
      if state r1 = Leader \<and> snapshotCheckThreshold \<le> lastApplied r1 - logBaseIndex r1
      then createSnapshotLocked unix (sn (lastApplied r1)) r1 else r1)"

subsection \<open>Frames\<close>

lemma closeWaiter_frame [simp, frame_simps]:
  "id_r (closeWaiter r) = id_r r" "peers (closeWaiter r) = peers r" "state (closeWaiter r) = state r"
  "term_r (closeWaiter r) = term_r r" "votedFor (closeWaiter r) = votedFor r"
  "log_r (closeWaiter r) = log_r r" "logBaseIndex (closeWaiter r) = logBaseIndex r"
  "commitIndex (closeWaiter r) = commitIndex r" "lastApplied (closeWaiter r) = lastApplied r"
  "applyCh (closeWaiter r) = applyCh r" "removedFromCluster (closeWaiter r) = removedFromCluster r"
  "fs_r (closeWaiter r) = fs_r r" "snapshot (closeWaiter r) = snapshot r"
  "leader (closeWaiter r) = leader r"
  by (simp_all add: closeWaiter_def split: option.split)

lemma applyEnd_frame [simp, frame_simps]:
  "id_r (applyEnd u sn r) = id_r r" "peers (applyEnd u sn r) = peers r" "state (applyEnd u sn r) = state r"
  "term_r (applyEnd u sn r) = term_r r" "votedFor (applyEnd u sn r) = votedFor r"
  "commitIndex (applyEnd u sn r) = commitIndex r" "lastApplied (applyEnd u sn r) = lastApplied r"
  "applyCh (applyEnd u sn r) = applyCh r" "removedFromCluster (applyEnd u sn r) = removedFromCluster r"
  "closed (applyEnd u sn r) = closed (closeWaiter r)" "waiters (applyEnd u sn r) = waiters (closeWaiter r)"
  "leader (applyEnd u sn r) = leader r"
  by (simp_all add: applyEnd_def Let_def)

lemma applySend_frame [simp, frame_simps]:
  "applyCh (applySend e r) = applyCh r @ [e]" "lastApplied (applySend e r) = lastApplied r"
  "commitIndex (applySend e r) = commitIndex r" "log_r (applySend e r) = log_r r"
  "logBaseIndex (applySend e r) = logBaseIndex r" "waiters (applySend e r) = waiters r"
  "closed (applySend e r) = closed r" "term_r (applySend e r) = term_r r" "id_r (applySend e r) = id_r r"
  "votedFor (applySend e r) = votedFor r" "removedFromCluster (applySend e r) = removedFromCluster r"
  by (simp_all add: applySend_def)

lemma applyBegin_frame:
  assumes "applyBegin now r = (r', Some e)"
  shows "lastApplied r' = lastApplied r + 1" "commitIndex r' = commitIndex r" "log_r r' = log_r r"
    "logBaseIndex r' = logBaseIndex r" "applyCh r' = applyCh r" "waiters r' = waiters r"
    "closed r' = closed r" "lastApplied r < commitIndex r" "entryAt r (lastApplied r + 1) = Some e"
  using assms by (auto simp: applyBegin_def Let_def split: if_splits option.splits)

lemma applyBegin_none:
  "applyBegin now r = (r', None) \<Longrightarrow>
     r' = r \<and> (commitIndex r \<le> lastApplied r \<or> entryAt r (lastApplied r + 1) = None)"
  by (auto simp: applyBegin_def Let_def split: if_splits option.splits)

lemma applyBegin_decreases:
  "applyBegin now r = (r', Some e) \<Longrightarrow>
     nat (commitIndex r' - lastApplied r') < nat (commitIndex r - lastApplied r)"
  using applyBegin_frame [of now r r' e] by simp

function runApplier :: "time \<Rightarrow> (int \<Rightarrow> error + bytes) \<Rightarrow> raft \<Rightarrow> raft" where
  "runApplier now sn r =
     (case applyBegin now r of
        (r1, None) \<Rightarrow> r1
      | (r1, Some entry) \<Rightarrow> runApplier now sn (applyEnd now sn (applySend entry r1)))"
  by pat_completeness auto
termination
  by (relation "measure (\<lambda>(now, sn, r). nat (commitIndex r - lastApplied r))")
     (auto dest!: applyBegin_decreases [OF sym])

declare runApplier.simps [simp del]

lemma keeps_AppliedWait [keeps]: "keeps_vote r (fst (AppliedWait i r))"
  by (auto simp: AppliedWait_def Let_def intro: keeps_vote_same)

lemma keeps_applyBegin [keeps]: "keeps_vote r (fst (applyBegin now r))"
proof -
  have "keeps_vote r (handleConfigChangeIfNeeded now e (r\<lparr>lastApplied := n\<rparr>))" for e n
    using keeps_handleConfig [of "r\<lparr>lastApplied := n\<rparr>" now e] by (simp add: keeps_vote_def)
  then show ?thesis by (auto simp: applyBegin_def Let_def split: option.split)
qed

lemma keeps_applySend [keeps]: "keeps_vote r (applySend e r)"
  by (rule keeps_vote_same) simp_all

lemma keeps_applyEnd [keeps]: "keeps_vote r (applyEnd u sn r)"
  by (rule keeps_vote_same) simp_all

subsection \<open>The log seen by the applier\<close>

lemma applyEnd_log:
  assumes "wf_log r" and "logBaseIndex r \<le> lastApplied r"
  shows "wf_log (applyEnd u sn r)" "lastLogIndex (applyEnd u sn r) = lastLogIndex r"
    "logBaseIndex (applyEnd u sn r) \<le> lastApplied r"
    "lastApplied r < i \<Longrightarrow> entryAt (applyEnd u sn r) i = entryAt r i"
proof -
  let ?c = "closeWaiter r"
  have wf: "wf_log ?c" using assms(1) by (simp add: wf_log_def)
  have eq: "entryAt ?c i = entryAt r i" "lastLogIndex ?c = lastLogIndex r" for i
    by (simp_all add: entryAt_eq lastLogIndex_def)
  note inv = createSnapshot_log [OF wf, of u "sn (lastApplied r)"]
  show "wf_log (applyEnd u sn r)" "lastLogIndex (applyEnd u sn r) = lastLogIndex r"
    using wf inv eq by (auto simp: applyEnd_def Let_def)
  show "lastApplied r < i \<Longrightarrow> entryAt (applyEnd u sn r) i = entryAt r i"
    using inv eq by (auto simp: applyEnd_def Let_def)
  show "logBaseIndex (applyEnd u sn r) \<le> lastApplied r"
    using assms(2) by (cases rule: createSnapshot_cases [of u "sn (lastApplied r)" ?c])
      (simp_all add: applyEnd_def Let_def)
qed

subsection \<open>Entries are applied in order, exactly once\<close>

lemma runApplier_step:
  "applyBegin now r = (r1, Some e) \<Longrightarrow>
     runApplier now sn r = runApplier now sn (applyEnd now sn (applySend e r1))"
  by (subst runApplier.simps) simp

lemma runApplier_stop: "applyBegin now r = (r1, None) \<Longrightarrow> runApplier now sn r = r1"
  by (subst runApplier.simps) simp

text \<open>What one iteration leaves for the next.\<close>

lemma apply_iteration:
  fixes sn :: "int \<Rightarrow> error + bytes"
  assumes "wf_log r" "logBaseIndex r \<le> lastApplied r" "commitIndex r \<le> lastLogIndex r"
    and b: "applyBegin now r = (r1, Some e)"
  defines "r2 \<equiv> applyEnd now sn (applySend e r1)"
  shows "wf_log r2" "logBaseIndex r2 \<le> lastApplied r2" "commitIndex r2 \<le> lastLogIndex r2"
    "lastApplied r2 = lastApplied r + 1" "commitIndex r2 = commitIndex r" "applyCh r2 = applyCh r @ [e]"
    "\<forall>i > lastApplied r2. entryAt r2 i = entryAt r i"
    "waiters r2 = (waiters r)(lastApplied r + 1 := None)"
    "closed r2 = closed r \<union> set_option (waiters r (lastApplied r + 1))"
proof -
  note f = applyBegin_frame [OF b]
  let ?s = "applySend e r1"
  have eq: "entryAt ?s i = entryAt r i" "lastLogIndex ?s = lastLogIndex r" for i
    using f(3,4) by (simp_all add: entryAt_eq lastLogIndex_def)
  have "wf_log ?s" "logBaseIndex ?s \<le> lastApplied ?s"
    using assms(1,2) f(1,3,4) by (simp_all add: wf_log_def)
  note e = applyEnd_log [OF this, where u = now and sn = sn, folded r2_def]
  show "wf_log r2" "commitIndex r2 \<le> lastLogIndex r2" "logBaseIndex r2 \<le> lastApplied r2"
    "lastApplied r2 = lastApplied r + 1" "commitIndex r2 = commitIndex r" "applyCh r2 = applyCh r @ [e]"
    "\<forall>i > lastApplied r2. entryAt r2 i = entryAt r i"
    using e f(1,2,5) eq assms(3) by (auto simp: r2_def)
  show "waiters r2 = (waiters r)(lastApplied r + 1 := None)"
    "closed r2 = closed r \<union> set_option (waiters r (lastApplied r + 1))"
    using f(1,6,7) by (auto simp: r2_def closeWaiter_def fun_upd_idem split: option.split)
qed

lemma upto_Cons: "i \<le> j \<Longrightarrow> [i..j] = i # [i + 1..j]" for i j :: int
  by (simp add: upto.simps)

text \<open>The channels of the waiters whose entries are committed and not yet applied.\<close>

definition due :: "raft \<Rightarrow> nat set" where
  "due r = {c. \<exists>i. lastApplied r < i \<and> i \<le> commitIndex r \<and> waiters r i = Some c}"

lemma due_step:
  assumes "lastApplied r' = lastApplied r + 1" and "commitIndex r' = commitIndex r"
    and "waiters r' = (waiters r)(lastApplied r + 1 := None)" and "lastApplied r < commitIndex r"
  shows "set_option (waiters r (lastApplied r + 1)) \<union> due r' = due r"
proof -
  have "c \<in> due r' \<or> waiters r (lastApplied r + 1) = Some c"
    if "lastApplied r < i" "i \<le> commitIndex r" "waiters r i = Some c" for i c
    using assms(1-3) that by (cases "i = lastApplied r + 1") (auto simp: due_def intro!: exI [of _ i])
  moreover have "due r' \<subseteq> due r"
  proof
    fix c assume "c \<in> due r'"
    then obtain i where "lastApplied r' < i" "i \<le> commitIndex r'" "waiters r' i = Some c"
      by (auto simp: due_def)
    with assms(1-3) show "c \<in> due r" by (auto simp: due_def intro!: exI [of _ i] split: if_splits)
  qed
  ultimately show ?thesis using assms(4) by (auto simp: due_def)
qed

lemma runApplier_spec:
  assumes "wf_log r" "logBaseIndex r \<le> lastApplied r" "commitIndex r \<le> lastLogIndex r"
  shows "applyCh (runApplier now sn r) =
           applyCh r @ map (\<lambda>i. the (entryAt r i)) [lastApplied r + 1..commitIndex r]"
    and "lastApplied (runApplier now sn r) = max (lastApplied r) (commitIndex r)"
    and "closed (runApplier now sn r) =
           closed r \<union> due r"
proof -
  have "applyCh (runApplier now sn r) =
           applyCh r @ map (\<lambda>i. the (entryAt r i)) [lastApplied r + 1..commitIndex r] \<and>
     lastApplied (runApplier now sn r) = max (lastApplied r) (commitIndex r) \<and>
     closed (runApplier now sn r) =
           closed r \<union> due r"
    using assms
  proof (induction now sn r rule: runApplier.induct)
    case (1 now sn r)
    show ?case
    proof (cases "applyBegin now r")
      case (Pair r1 oe)
      show ?thesis
      proof (cases oe)
        case None
        with Pair applyBegin_none [of now r r1] have "r1 = r" "commitIndex r \<le> lastApplied r"
          using entryAt_ne_None_iff [OF 1(2), of "lastApplied r + 1"] 1(3,4) by auto
        with None Pair show ?thesis by (auto simp: runApplier_stop due_def)
      next
        case (Some e)
        define r2 where "r2 = applyEnd now sn (applySend e r1)"
        note b = Pair [unfolded Some] and it = apply_iteration [OF 1(2-4) Pair [unfolded Some], where sn = sn, folded r2_def]
        note fr = applyBegin_frame(8,9) [OF b]
        have "map (\<lambda>i. the (entryAt r2 i)) [lastApplied r2 + 1..commitIndex r2] =
            map (\<lambda>i. the (entryAt r i)) [2 + lastApplied r..commitIndex r]"
          using it(4,5,7) by simp
        moreover have "set_option (waiters r (lastApplied r + 1)) \<union> due r2 = due r"
          using it(4,5,8) fr(1) by (rule due_step)
        ultimately show ?thesis
          using 1(1) [OF b [symmetric] refl] it fr runApplier_step [OF b, of sn]
          by (auto simp: r2_def [symmetric] upto_Cons)
      qed
    qed
  qed
  then show "applyCh (runApplier now sn r) =
           applyCh r @ map (\<lambda>i. the (entryAt r i)) [lastApplied r + 1..commitIndex r]"
    "lastApplied (runApplier now sn r) = max (lastApplied r) (commitIndex r)"
    "closed (runApplier now sn r) =
           closed r \<union> due r"
    by auto
qed


text \<open>C12: the applier hands the state machine exactly the entries between the last applied
  index and the commit index, in log order, each once, and then counts them as applied; the
  snapshots and membership changes on the way do not disturb it. The loop ends.\<close>

theorem runApplier_in_order:
  assumes "wf_log r" and "logBaseIndex r \<le> lastApplied r" and "commitIndex r \<le> lastLogIndex r"
  shows "applyCh (runApplier now sn r) =
           applyCh r @ filter (\<lambda>e. lastApplied r < Index e \<and> Index e \<le> commitIndex r) (log_r r) \<and>
         lastApplied (runApplier now sn r) = max (lastApplied r) (commitIndex r)"
proof -
  let ?b = "logBaseIndex r" and ?l = "lastApplied r" and ?c = "commitIndex r"
  have "filter (\<lambda>e. ?l < Index e \<and> Index e \<le> ?c) (log_r r) = map (\<lambda>i. the (entryAt r i)) [?l + 1..?c]"
  proof -
    have c: "contiguous ?b (log_r r)" and b: "?b \<le> ?l + 1"
      and len: "?c < ?b + int (length (log_r r))"
      using assms by (auto simp: wf_log_def lastLogIndex_wf [OF assms(1)])
    have "filter (\<lambda>e. ?l < Index e \<and> Index e \<le> ?c) (log_r r) =
        map (\<lambda>i. log_r r ! nat (i - ?b)) [?l + 1..?c]"
      using contiguous_filter_range [OF c b len] .
    also have "\<dots> = map (\<lambda>i. the (entryAt r i)) [?l + 1..?c]"
      using b len by (auto simp: entryAt_eq)
    finally show ?thesis .
  qed
  then show ?thesis using runApplier_spec [OF assms] by simp
qed


theorem runApplier_in_order_witness:
  "let r = node4\<lparr>lastApplied := 4, commitIndex := 6\<rparr> in
   map Index (applyCh (runApplier 0 (\<lambda>i. Inr []) r)) = [5, 6]"
proof -
  let ?r = "node4\<lparr>lastApplied := 4, commitIndex := 6\<rparr>"
  have "wf_log ?r" using wf_node4 by (simp add: wf_log_def)
  moreover have "logBaseIndex ?r \<le> lastApplied ?r" "commitIndex ?r \<le> lastLogIndex ?r"
    by (simp_all add: lastLogIndex_def node4_def newRaft_def)
  ultimately show ?thesis
    using runApplier_in_order [of ?r 0 "\<lambda>i. Inr []"] by (simp add: node4_def newRaft_def)
qed

subsection \<open>Waiters\<close>

text \<open>Channels in use were handed out, a waiter's channel is open, and no two waiters share
  one.\<close>

definition wf_waiters :: "raft \<Rightarrow> bool" where
  "wf_waiters r \<longleftrightarrow> (\<forall>c \<in> closed r. c < nextChan r) \<and>
     (\<forall>i c. waiters r i = Some c \<longrightarrow> c < nextChan r \<and> c \<notin> closed r) \<and>
     inj_on (waiters r) (dom (waiters r))"

lemma AppliedWait_frame [simp, frame_simps]:
  "log_r (fst (AppliedWait i r)) = log_r r" "logBaseIndex (fst (AppliedWait i r)) = logBaseIndex r"
  "lastApplied (fst (AppliedWait i r)) = lastApplied r"
  "commitIndex (fst (AppliedWait i r)) = commitIndex r"
  by (simp_all add: AppliedWait_def Let_def)

text \<open>C19: a caller that waits for an index is woken when, and only when, the entry at that
  index has been applied: its channel is closed after the applier has run exactly if the last
  applied index has reached it, also when it had already been reached before the call.\<close>

theorem AppliedWait_wakes:
  assumes "wf_log r" and "logBaseIndex r \<le> lastApplied r" and "commitIndex r \<le> lastLogIndex r"
    and "wf_waiters r"
  shows "snd (AppliedWait idx r) \<in> closed (runApplier now sn (fst (AppliedWait idx r))) \<longleftrightarrow>
         idx \<le> lastApplied (runApplier now sn (fst (AppliedWait idx r)))"
proof -
  let ?r1 = "fst (AppliedWait idx r)" and ?ch = "snd (AppliedWait idx r)"
  have h: "wf_log ?r1" "logBaseIndex ?r1 \<le> lastApplied ?r1" "commitIndex ?r1 \<le> lastLogIndex ?r1"
    using assms(1-3) by (simp_all add: wf_log_def lastLogIndex_def)
  have fresh: "nextChan r \<notin> closed r" "waiters r i \<noteq> Some (nextChan r)" for i
    using assms(4) by (auto simp: wf_waiters_def)
  have "?ch \<in> closed ?r1 \<longleftrightarrow> idx \<le> lastApplied r"
    using fresh(1) by (simp add: AppliedWait_def Let_def)
  moreover have "?ch \<in> due ?r1 \<longleftrightarrow> lastApplied r < idx \<and> idx \<le> commitIndex r"
    using fresh(2) by (simp add: AppliedWait_def Let_def due_def)
  ultimately show ?thesis
    using runApplier_spec(2,3) [OF h, of now sn] by (simp add: max_def) arith
qed

theorem AppliedWait_wakes_witness:
  "let r = node4\<lparr>lastApplied := 4, commitIndex := 6\<rparr> in
   snd (AppliedWait 6 r) \<in> closed (runApplier 0 (\<lambda>i. Inr []) (fst (AppliedWait 6 r))) \<longleftrightarrow>
   6 \<le> lastApplied (runApplier 0 (\<lambda>i. Inr []) (fst (AppliedWait 6 r)))"
proof -
  let ?r = "node4\<lparr>lastApplied := 4, commitIndex := 6\<rparr>"
  have "wf_log ?r" using wf_node4 by (simp add: wf_log_def)
  moreover have "logBaseIndex ?r \<le> lastApplied ?r" "commitIndex ?r \<le> lastLogIndex ?r" "wf_waiters ?r"
    by (simp_all add: lastLogIndex_def wf_waiters_def node4_def newRaft_def)
  ultimately show ?thesis
    using AppliedWait_wakes [of ?r 6 0 "\<lambda>i. Inr []"] by simp
qed

end
