(* ===== verification/Raft_Restart.thy ===== *)
theory Raft_Restart
  imports Raft_Applier
begin

section \<open>Starting a node\<close>

text \<open>
  \<^verbatim>\<open>New\<close> of \<^verbatim>\<open>raft.go\<close>: loading metadata, log and snapshot, aligning the log with the
  snapshot, replaying the membership changes. Shown: what a restart brings back, and what a
  crash between the two writes of a snapshot leads to. \<^verbatim>\<open>path.Join\<close> and \<^verbatim>\<open>filepath.Join\<close>
  are the directory, a slash and the file name.
\<close>

text \<open>What \<^verbatim>\<open>New\<close> makes of the loaded log and snapshot: the log base and the entries.\<close>

definition alignLog :: "Snapshot option \<Rightarrow> LogEntry list \<Rightarrow> int \<times> LogEntry list" where
  "alignLog snap entries =
     (case snap of
        None \<Rightarrow> (Index (hd entries), entries)
      | Some s \<Rightarrow>
          (LastIncludedIndex s,
           if entries = [] \<or> Index (hd entries) \<noteq> LastIncludedIndex s
           then \<lparr>Index = LastIncludedIndex s, Term = LastIncludedTerm s, Data = []\<rparr> # entries
           else (hd entries)\<lparr>Index := LastIncludedIndex s, Term := LastIncludedTerm s\<rparr> # tl entries))"

definition New :: "NodeID \<Rightarrow> NodeID list \<Rightarrow> string \<Rightarrow> time \<Rightarrow> fs \<Rightarrow> raft" where
  "New i ps dir now d =
     (let (d1, trm, vf, savedPeers, _) = meta_Load (dir @ ''/raft-meta.json'') d;
          ps1 = (if savedPeers \<noteq> [] then savedPeers else ps);
          (d2, loaded, _) = log_Load (dir @ ''/raft-log.json'') d1;
          entries = (if loaded = [] then [\<lparr>Index = 0, Term = 0, Data = []\<rparr>] else loaded);
          (d3, snap, _) = snap_Load (dir @ ''/raft-snap.json'') d2;
          (base, entries1) = alignLog snap entries;
          r = replayConfigChanges now (newRaft i ps1 trm vf now entries1 base snap dir d3);
          r1 = r\<lparr>nextIndex := set_all (peers r) (lastLogIndex r + 1) (nextIndex r),
                 matchIndex := set_all (peers r) 0 (matchIndex r)\<rparr>
      in case snap of
           None \<Rightarrow> r1
         | Some s \<Rightarrow> r1\<lparr>commitIndex := LastIncludedIndex s, lastApplied := LastIncludedIndex s\<rparr>)"

text \<open>The files of a node hold what it has in memory.\<close>

definition synced :: "raft \<Rightarrow> bool" where
  "synced r \<longleftrightarrow> faults (fs_r r) = [] \<and>
     meta_view (metaPath r) (fs_r r) = Some (term_r r, votedFor r, peers r) \<and>
     log_view (logPath r) (fs_r r) = Some (log_r r) \<and>
     (case snapshot r of None \<Rightarrow> files (fs_r r) (snapPath r) = None
      | Some s \<Rightarrow> snap_view (snapPath r) (fs_r r) = Some s \<and> logBaseIndex r = LastIncludedIndex s \<and>
          Term (hd (log_r r)) = LastIncludedTerm s)"

lemma os_ReadFile_no_fault [simp]:
  "faults d = [] \<Longrightarrow> os_ReadFile p d = (d, case files d p of None \<Rightarrow> NotExist | Some b \<Rightarrow> ReadOk b)"
  by (simp add: os_ReadFile_def)

lemma loads_no_fault:
  assumes "faults d = []"
  shows "meta_view p d = Some (t, v, ps) \<Longrightarrow> meta_Load p d = (d, t, v, ps, None)"
    and "log_view p d = Some es \<Longrightarrow> log_Load p d = (d, es, None)"
    and "snap_view p d = Some s \<Longrightarrow> snap_Load p d = (d, Some s, None)"
    and "files d p = None \<Longrightarrow> snap_Load p d = (d, None, None)"
  using assms
  by (auto simp: meta_Load_def meta_view_def log_Load_def log_view_def snap_Load_def snap_view_def
      split: option.splits)

lemma alignLog_same:
  assumes "wf_log r" and "case snapshot r of None \<Rightarrow> True
      | Some s \<Rightarrow> logBaseIndex r = LastIncludedIndex s \<and> Term (hd (log_r r)) = LastIncludedTerm s"
  shows "alignLog (snapshot r) (log_r r) = (logBaseIndex r, log_r r)"
  using assms by (cases "log_r r") (auto simp: alignLog_def wf_log_def split: option.splits)

text \<open>The node as \<open>New\<close> builds it before the configuration changes are replayed.\<close>

definition reloaded :: "time \<Rightarrow> raft \<Rightarrow> NodeID list \<Rightarrow> raft" where
  "reloaded now r ps = newRaft (id_r r) (if peers r = [] then ps else peers r) (term_r r) (votedFor r) now
     (log_r r) (logBaseIndex r) (snapshot r) (dataDir r) (fs_r r)"

lemma New_synced:
  fixes now :: time and ps :: "NodeID list"
  assumes "wf_log r" and "synced r"
  defines "q \<equiv> replayConfigChanges now (reloaded now r ps)"
  shows "New (id_r r) ps (dataDir r) now (fs_r r) =
    (let r1 = q\<lparr>nextIndex := set_all (peers q) (lastLogIndex q + 1) (nextIndex q),
                 matchIndex := set_all (peers q) 0 (matchIndex q)\<rparr>
     in case snapshot r of None \<Rightarrow> r1
        | Some s \<Rightarrow> r1\<lparr>commitIndex := LastIncludedIndex s, lastApplied := LastIncludedIndex s\<rparr>)"
proof -
  have nf: "faults (fs_r r) = []" and ne: "log_r r \<noteq> []"
    using assms(1,2) by (auto simp: synced_def wf_log_def)
  have al: "alignLog (snapshot r) (log_r r) = (logBaseIndex r, log_r r)"
    using assms(1,2) by (intro alignLog_same) (auto simp: synced_def split: option.splits)
  have m: "meta_Load (dataDir r @ ''/raft-meta.json'') (fs_r r) = (fs_r r, term_r r, votedFor r, peers r, None)"
    and l: "log_Load (dataDir r @ ''/raft-log.json'') (fs_r r) = (fs_r r, log_r r, None)"
    and s: "snap_Load (dataDir r @ ''/raft-snap.json'') (fs_r r) = (fs_r r, snapshot r, None)"
    using assms(2) loads_no_fault [OF nf]
    by (auto simp: synced_def metaPath_def logPath_def snapPath_def split: option.splits)
  have "(if peers r \<noteq> [] then peers r else ps) = (if peers r = [] then ps else peers r)" by simp
  with m l s ne al show ?thesis
    unfolding New_def q_def reloaded_def by (simp only: Let_def prod.case if_False)
qed


lemma applyChanges_vote:
  "(False, id_r r) \<notin> set cs \<Longrightarrow> votedFor (applyChanges now cs r) = votedFor r \<and>
     removedFromCluster (applyChanges now cs r) = removedFromCluster r"
proof (induction cs arbitrary: r)
  case (Cons c cs)
  obtain a n where c: "c = (a, n)" by fastforce
  have "votedFor (applyConfigChangeLocked now a n r) = votedFor r \<and>
      removedFromCluster (applyConfigChangeLocked now a n r) = removedFromCluster r"
    using Cons.prems by (auto simp: c applyConfigChangeLocked_def)
  with Cons.IH [of "applyConfigChangeLocked now a n r"] Cons.prems show ?case by (simp add: c)
qed simp

lemma configChanges_cong:
  assumes "log_r r' = log_r r" and "logBaseIndex r' = logBaseIndex r"
  shows "configChanges r' = configChanges r"
proof -
  have "changeAt r' = changeAt r" using entryAt_cong [OF assms] by (simp add: changeAt_def fun_eq_iff)
  with assms show ?thesis by (simp add: configChanges_def lastLogIndex_def)
qed



text \<open>A node whose files were just written.\<close>

definition saved4 :: raft where
  "saved4 = saveLog (saveMeta node4)"

lemma saved4_synced: "wf_log saved4" "synced saved4"
proof -
  let ?m = "saveMeta node4"
  have u: "utf8_valid ''n2''" "utf8_valid ''n3''" "utf8_valid []"
    by (simp_all add: utf8_valid_ascii)
  have nf: "faults (fs_r ?m) = []" "faults (fs_r saved4) = []"
    by (simp_all add: saved4_def node4_def newRaft_def)
  have "meta_view (metaPath ?m) (fs_r ?m) = Some (term_r node4, votedFor node4, peers node4)"
    by (rule saveMeta_view) (use u in \<open>simp_all add: meta_ok_def node4_def newRaft_def\<close>)
  moreover have "files (fs_r saved4) (metaPath ?m) = files (fs_r ?m) (metaPath ?m)"
    by (simp add: saved4_def saveLog_other metaPath_def logPath_def)
  ultimately have "meta_view (metaPath saved4) (fs_r saved4) = Some (term_r saved4, votedFor saved4, peers saved4)"
    by (simp add: meta_view_def saved4_def metaPath_def)
  moreover have "log_view (logPath saved4) (fs_r saved4) = Some (log_r saved4)"
  proof -
    have "log_ok (log_r ?m)" by (simp add: log_ok_def node4_def newRaft_def)
    moreover have "log_SaveAll (logPath ?m) (log_r ?m) (fs_r ?m) = (fs_r saved4, None)"
      using nf(1) by (simp add: saved4_def saveLog_def log_SaveAll_def del: json_print.simps)
    ultimately show ?thesis
      using lstore.save_ok [of "log_r ?m" "logPath ?m" "fs_r ?m" "fs_r saved4"]
      by (simp add: saved4_def logPath_def)
  qed
  moreover have "files (fs_r saved4) (snapPath saved4) = None"
    by (simp add: saved4_def saveLog_def log_SaveAll_def saveMeta_def meta_Save_def snapPath_def
        logPath_def metaPath_def node4_def newRaft_def del: json_print.simps)
  moreover have "snapshot saved4 = None" by (simp add: saved4_def node4_def newRaft_def)
  ultimately show "synced saved4" using nf(2) by (simp add: synced_def)
  show "wf_log saved4" using wf_node4 by (simp add: saved4_def wf_log_def)
qed


lemma log_Load_fst: "faults d = [] \<Longrightarrow> fst (log_Load p d) = d"
  and meta_Load_fst: "faults d = [] \<Longrightarrow> fst (meta_Load p d) = d"
  by (simp_all add: log_Load_def meta_Load_def split: option.split read_result.split)

lemma New_misaligned:
  assumes "faults d = []" and "log_view (dir @ ''/raft-log.json'') d = Some lg" and "lg \<noteq> []"
    and "snap_view (dir @ ''/raft-snap.json'') d = Some s" and "Index (hd lg) \<noteq> LastIncludedIndex s"
  shows "log_r (New i ps dir now d) =
           \<lparr>Index = LastIncludedIndex s, Term = LastIncludedTerm s, Data = []\<rparr> # lg"
    and "logBaseIndex (New i ps dir now d) = LastIncludedIndex s"
proof -
  obtain t v sp err where m: "meta_Load (dir @ ''/raft-meta.json'') d = (d, t, v, sp, err)"
    using meta_Load_fst [OF assms(1), of "dir @ ''/raft-meta.json''"] by (metis prod_cases5 fst_conv)
  note l = loads_no_fault(2,3) [OF assms(1)]
  show "log_r (New i ps dir now d) =
           \<lparr>Index = LastIncludedIndex s, Term = LastIncludedTerm s, Data = []\<rparr> # lg"
    "logBaseIndex (New i ps dir now d) = LastIncludedIndex s"
    using assms(3,5) l(1) [OF assms(2)] l(2) [OF assms(4)]
    by (simp_all add: New_def m alignLog_def replayConfigChanges_alt newRaft_def Let_def)
qed

text \<open>The disk after a crash between the two writes of \<^verbatim>\<open>createSnapshotLocked\<close>: the snapshot
  is the new one, the log file still the old one.\<close>

definition crashBeforeLogSave :: "time \<Rightarrow> bytes \<Rightarrow> raft \<Rightarrow> fs" where
  "crashBeforeLogSave unix b r =
     \<lparr>files = (files (fs_r (createSnapshotLocked unix (Inr b) r)))
                (logPath r := files (fs_r r) (logPath r)), faults = []\<rparr>"

text \<open>A crash between saving the snapshot and saving the shortened log is not recovered
  from. \<^verbatim>\<open>New\<close> puts the snapshot's dummy entry in front of the whole old log without dropping
  what the snapshot covers, so after the restart the log has lost the correspondence of
  positions and indexes: it is not well-formed, and the position right behind the snapshot
  holds the first entry of the old log.\<close>

theorem torn_snapshot_breaks_restart:
  fixes now :: time and ps :: "NodeID list"
  assumes "wf_log r" and "log_view (logPath r) (fs_r r) = Some (log_r r)"
    and "logBaseIndex r < lastApplied r"
    and "snap_view (snapPath r) (fs_r (createSnapshotLocked unix (Inr b) r)) = Some s"
    and "LastIncludedIndex s = lastApplied r"
  defines "r' \<equiv> New (id_r r) ps (dataDir r) now (crashBeforeLogSave unix b r)"
  shows "\<not> wf_log r' \<and> entryAt r' (lastApplied r + 1) = Some (hd (log_r r))"
proof -
  let ?d = "crashBeforeLogSave unix b r"
  obtain e es where lg: "log_r r = e # es" "Index e = logBaseIndex r"
    using assms(1) by (cases "log_r r") (auto simp: wf_log_def)
  have "faults ?d = []" by (simp add: crashBeforeLogSave_def)
  moreover have "log_view (dataDir r @ ''/raft-log.json'') ?d = Some (log_r r)"
    using assms(2) by (simp add: log_view_def crashBeforeLogSave_def logPath_def)
  moreover have "snap_view (dataDir r @ ''/raft-snap.json'') ?d = Some s"
    using assms(4) by (simp add: snap_view_def crashBeforeLogSave_def logPath_def snapPath_def)
  moreover have "Index (hd (log_r r)) \<noteq> LastIncludedIndex s" using lg assms(3,5) by simp
  ultimately have n: "log_r r' = \<lparr>Index = lastApplied r, Term = LastIncludedTerm s, Data = []\<rparr> # log_r r"
    "logBaseIndex r' = lastApplied r"
    using New_misaligned [of ?d "dataDir r" "log_r r" s] lg(1) assms(5) by (simp_all add: r'_def)
  then have "\<not> wf_log r'" using lg assms(3) by (simp add: wf_log_def)
  moreover have "entryAt r' (lastApplied r + 1) = Some (hd (log_r r))"
    using lg(1) by (simp add: entryAt_eq n)
  ultimately show ?thesis ..
qed

theorem torn_snapshot_breaks_restart_witness:
  "let r = saved4\<lparr>snapshotter := True, lastApplied := 6\<rparr>;
       r' = New ''n1'' [] ''d'' 3 (crashBeforeLogSave 1 ''s'' r) in
   wf_log r \<and> \<not> wf_log r'"
proof -
  let ?r = "saved4\<lparr>snapshotter := True, lastApplied := 6\<rparr>"
  let ?s = "\<lparr>LastIncludedIndex = 6, LastIncludedTerm = 2, CreatedAt = 1, SnapData = ''s''\<rparr>"
  have wf: "wf_log ?r" using saved4_synced(1) by (simp add: wf_log_def)
  have lg: "log_r saved4 = log_r node4" "logBaseIndex saved4 = 4" "faults (fs_r saved4) = []"
    by (simp_all add: saved4_def node4_def newRaft_def)
  have e: "entryAt ?r 6 = Some \<lparr>Index = 6, Term = 2, Data = ''b''\<rparr>"
    using lg by (simp add: entryAt_eq) (simp add: node4_def newRaft_def)
  have lv: "log_view (logPath ?r) (fs_r ?r) = Some (log_r ?r)"
    using saved4_synced(2) by (simp add: synced_def logPath_def)
  obtain d where sv: "snap_Save (snapPath ?r) ?s (fs_r ?r) = (d, None)"
    using lg(3) by (simp add: snap_Save_def del: json_print.simps)
  let ?r1 = "?r\<lparr>fs_r := d, snapshot := Some ?s, log_r := compactLog 6 2 (log_r ?r), logBaseIndex := 6\<rparr>"
  have "createSnapshotLocked 1 (Inr ''s'') ?r = saveLog ?r1"
    using e sv by (simp add: createSnapshotLocked_def del: json_print.simps)
  moreover have "snap_view (snapPath ?r) (fs_r ?r1) = Some ?s"
    using sstore.save_ok [OF _ sv] by (simp add: snap_ok_def)
  ultimately have "snap_view (snapPath ?r) (fs_r (createSnapshotLocked 1 (Inr ''s'') ?r)) = Some ?s"
    using snap_view_saveLog [of ?r1] by (simp add: snapPath_def)
  from torn_snapshot_breaks_restart [OF wf lv _ this] wf lg(2) show ?thesis
    by (simp add: saved4_def node4_def newRaft_def)
qed

end
