(* ===== verification/Raft_Sender.thy ===== *)
theory Raft_Sender
  imports Raft_Restart
begin

section \<open>The sending side\<close>

text \<open>
  \<^verbatim>\<open>rpc_client.go\<close>: what a candidate and a leader send, and what they make of the
  answers. A goroutine that dials, calls and processes the answer is split at the call: the
  function that builds the request, and the function that runs under the lock when the answer
  is there (an RPC error ends the goroutine without a step, except in
  \<^verbatim>\<open>sendSnapshotToFollower\<close>).
\<close>

subsection \<open>Requests\<close>

definition broadcastRequestVote :: "raft \<Rightarrow> NodeID list" where
  "broadcastRequestVote r = filter (\<lambda>p. p \<noteq> []) (peers r)"

definition voteRequest :: "int \<Rightarrow> raft \<Rightarrow> RequestVoteRequest" where
  "voteRequest trm r =
     \<lparr>rv_CandidateId = id_r r, rv_Term = int32 trm, rv_LastLogIndex = int32 (lastLogIndex r),
      rv_LastLogTerm = int32 (lastLogTerm r)\<rparr>"

definition toPb :: "LogEntry \<Rightarrow> pbLogEntry" where
  "toPb e = \<lparr>pe_Index = int32 (Index e), pe_Term = int32 (Term e), pe_Data = Data e\<rparr>"

text \<open>\<open>MakePanic\<close> is the run-time panic of \<^verbatim>\<open>make\<close> with a negative capacity.\<close>

datatype outgoing =
    SendSnapshot NodeID
  | SendBatches NodeID int int "pbLogEntry list" int
  | MakePanic

text \<open>The body of the loop of \<^verbatim>\<open>sendHeartbeats\<close> for one peer: the previous index and term, all
  pending entries and the commit index, or a snapshot.\<close>

definition pendingEntries :: "int \<Rightarrow> raft \<Rightarrow> pbLogEntry list" where
  "pendingEntries nextIdx r =
     List.map_filter (\<lambda>idx. map_option toPb (entryAt r idx)) [nextIdx..lastLogIndex r]"

definition heartbeatFor :: "NodeID \<Rightarrow> raft \<Rightarrow> outgoing" where
  "heartbeatFor p r =
     (let n0 = mget (nextIndex r) p;
          nextIdx = (if n0 = 0 then logBaseIndex r + 1 else n0);
          prevLogIndex = nextIdx - 1;
          prevLogTerm = (case entryAt r prevLogIndex of Some e \<Rightarrow> Term e | None \<Rightarrow> 0)
      in if (case snapshot r of Some snap \<Rightarrow> nextIdx \<le> LastIncludedIndex snap | None \<Rightarrow> False)
         then SendSnapshot p
         else if lastLogIndex r - prevLogIndex < 0 then MakePanic
         else SendBatches p prevLogIndex prevLogTerm (pendingEntries nextIdx r) (commitIndex r))"

definition sendHeartbeats :: "raft \<Rightarrow> raft \<times> outgoing list" where
  "sendHeartbeats r =
     (let ps = peers r;
          out = map (\<lambda>p. heartbeatFor p r) (filter (\<lambda>p. p \<noteq> []) ps)
      in (if ps = [] then updateCommitIndexLocked r else r, out))"

text \<open>One tick of the heartbeat goroutine of a leader; \<open>None\<close> ends it.\<close>

definition heartbeatTick :: "raft \<Rightarrow> (raft \<times> outgoing list) option" where
  "heartbeatTick r = (if state r \<noteq> Leader then None else Some (sendHeartbeats r))"

subsection \<open>Batches\<close>

text \<open>Whether the semaphore of the peer gives a permit at each turn of the loop.\<close>

datatype permit = Permit | Full | Shutdown

function pipelineLoop ::
  "int \<Rightarrow> int \<Rightarrow> pbLogEntry list \<Rightarrow> permit list \<Rightarrow> (int \<times> int \<times> pbLogEntry list) list"
where
  "pipelineLoop currentPrevIndex currentPrevTerm es perms =
     (if es = [] then []
      else
        let batch = take maxEntriesPerBatch es; rest = drop maxEntriesPerBatch es in
        case perms of
          Shutdown # ps \<Rightarrow> []
        | Full # ps \<Rightarrow> pipelineLoop currentPrevIndex currentPrevTerm rest ps
        | _ \<Rightarrow> (currentPrevIndex, currentPrevTerm, batch) #
               pipelineLoop (int_of32 (pe_Index (last batch))) (int_of32 (pe_Term (last batch)))
                 rest (tl perms))"
  by pat_completeness auto
termination
  by (relation "measure (\<lambda>(i, t, es, ps). length es)") (auto simp: maxEntriesPerBatch_def)

declare pipelineLoop.simps [simp del]

definition sendBatchesWithPipeline ::
  "int \<Rightarrow> int \<Rightarrow> pbLogEntry list \<Rightarrow> permit list \<Rightarrow> (int \<times> int \<times> pbLogEntry list) list"
where
  "sendBatchesWithPipeline prevLogIndex prevLogTerm allEntries perms =
     (if allEntries = [] then [(prevLogIndex, prevLogTerm, [])]
      else pipelineLoop prevLogIndex prevLogTerm allEntries perms)"

definition batchRequest ::
  "int \<Rightarrow> NodeID \<Rightarrow> int \<Rightarrow> int \<times> int \<times> pbLogEntry list \<Rightarrow> AppendEntriesRequest"
where
  "batchRequest trm leaderID freshCommit = (\<lambda>(prevIdx, prevTrm, es).
     \<lparr>ae_Term = int32 trm, ae_LeaderId = leaderID, ae_PrevLogIndex = int32 prevIdx,
      ae_PrevLogTerm = int32 prevTrm, ae_Entries = es, ae_LeaderCommit = int32 freshCommit\<rparr>)"

definition getPipelineSemaphore :: "NodeID \<Rightarrow> raft \<Rightarrow> raft \<times> nat" where
  "getPipelineSemaphore p r =
     (case pipelineSemaphores r p of
        Some used \<Rightarrow> (r, used)
      | None \<Rightarrow> (r\<lparr>pipelineSemaphores := (pipelineSemaphores r)(p \<mapsto> 0)\<rparr>, 0))"

text \<open>The non-blocking send to the semaphore channel, and the receive when the batch is
  done.\<close>

definition acquirePermit :: "NodeID \<Rightarrow> raft \<Rightarrow> raft \<times> permit" where
  "acquirePermit p r =
     (let (r1, used) = getPipelineSemaphore p r in
      if used < maxPipelineInflight
      then (r1\<lparr>pipelineSemaphores := (pipelineSemaphores r1)(p \<mapsto> used + 1)\<rparr>, Permit)
      else (r1, Full))"

definition releasePermit :: "NodeID \<Rightarrow> raft \<Rightarrow> raft" where
  "releasePermit p r =
     (case pipelineSemaphores r p of
        Some (Suc n) \<Rightarrow> r\<lparr>pipelineSemaphores := (pipelineSemaphores r)(p \<mapsto> n)\<rparr>
      | _ \<Rightarrow> r)"

subsection \<open>Answers\<close>

definition handleAppendResponse ::
  "NodeID \<Rightarrow> int \<Rightarrow> pbLogEntry list \<Rightarrow> AppendEntriesResponse \<Rightarrow> raft \<Rightarrow> raft \<times> bool \<times> effect list"
where
  "handleAppendResponse peer prevLogIndex es resp r =
     (if term_r r < int_of32 (aer_Term resp)
      then (saveMeta (r\<lparr>term_r := int_of32 (aer_Term resp), state := Follower, votedFor := []\<rparr>), False, [])
      else if \<not> aer_Success resp then
        if (case snapshot r of Some s \<Rightarrow> mget (nextIndex r) peer \<le> LastIncludedIndex s | None \<Rightarrow> False)
        then (r, False, [GoSendSnapshot peer])
        else if logBaseIndex r + 1 < mget (nextIndex r) peer
        then (r\<lparr>nextIndex := (nextIndex r)(peer \<mapsto> mget (nextIndex r) peer - 1)\<rparr>, False, [])
        else (r, False, [])
      else if peer \<notin> set (peers r) then (r, False, [])
      else
        let r1 = (if es \<noteq> [] then
                    (let lastSent = int_of32 (pe_Index (last es)) in
                     r\<lparr>matchIndex := (matchIndex r)(peer \<mapsto> lastSent),
                       nextIndex := (nextIndex r)(peer \<mapsto> lastSent + 1)\<rparr>)
                  else if logBaseIndex r \<le> prevLogIndex then
                    r\<lparr>matchIndex := (matchIndex r)(peer \<mapsto> prevLogIndex),
                      nextIndex := (nextIndex r)(peer \<mapsto> prevLogIndex + 1)\<rparr>
                  else r)
        in (updateCommitIndexLocked r1, True, []))"

text \<open>\<^verbatim>\<open>sendSnapshotToFollower\<close>: the snapshot in memory or else on disk; after the call, whether
  it succeeded or not, the peer counts as being at the snapshot.\<close>

definition snapshotToSend :: "raft \<Rightarrow> raft \<times> Snapshot option" where
  "snapshotToSend r =
     (case snapshot r of
        Some s \<Rightarrow> (r, Some s)
      | None \<Rightarrow>
          (case snap_Load (snapPath r) (fs_r r) of
             (d, s, err) \<Rightarrow> (r\<lparr>fs_r := d\<rparr>, if err = None then s else None)))"

definition snapshotRequest :: "Snapshot \<Rightarrow> raft \<Rightarrow> InstallSnapshotRequest" where
  "snapshotRequest snap r =
     \<lparr>is_Term = int32 (term_r r), is_LeaderId = id_r r,
      is_LastIncludedIndex = int32 (LastIncludedIndex snap),
      is_LastIncludedTerm = int32 (LastIncludedTerm snap), is_Data = SnapData snap\<rparr>"

definition snapshotSent :: "NodeID \<Rightarrow> Snapshot \<Rightarrow> raft \<Rightarrow> raft" where
  "snapshotSent p snap r =
     r\<lparr>matchIndex := (matchIndex r)(p \<mapsto> LastIncludedIndex snap),
       nextIndex := (nextIndex r)(p \<mapsto> LastIncludedIndex snap + 1)\<rparr>"

subsection \<open>Terms and votes are kept\<close>

lemma keeps_sendHeartbeats [keeps]: "keeps_vote r (fst (sendHeartbeats r))"
  by (auto simp: sendHeartbeats_def Let_def intro: keeps)

lemma keeps_handleAppendResponse [keeps]:
  "keeps_vote r (fst (handleAppendResponse p i es resp r))"
  by (auto simp: handleAppendResponse_def Let_def keeps_vote_def)

lemma keeps_snapshotSent [keeps]: "keeps_vote r (snapshotSent p s r)"
  by (rule keeps_vote_same) (simp_all add: snapshotSent_def)

lemma keeps_permits [keeps]:
  "keeps_vote r (fst (acquirePermit p r))" "keeps_vote r (releasePermit p r)"
  "keeps_vote r (fst (getPipelineSemaphore p r))" "keeps_vote r (fst (snapshotToSend r))"
  by (auto simp: acquirePermit_def releasePermit_def getPipelineSemaphore_def snapshotToSend_def Let_def
      case_prod_beta intro!: keeps_vote_same split: option.split nat.split)

subsection \<open>Batches cover the pending entries\<close>

definition fits_log :: "raft \<Rightarrow> bool" where
  "fits_log r \<longleftrightarrow> list_all (\<lambda>e. fits32 (Index e) \<and> fits32 (Term e)) (log_r r)"

text \<open>A previous position and entries that are a stretch of a node's log.\<close>

definition stretch :: "raft \<Rightarrow> int \<times> int \<times> pbLogEntry list \<Rightarrow> bool" where
  "stretch r = (\<lambda>(prev, pt, es). 0 \<le> prev \<and> map_option Term (entryAt r prev) = Some pt \<and>
     (\<forall>k < length es. entryAt r (prev + 1 + int k) = Some (toLogEntry (es ! k))))"

lemma toLogEntry_toPb: "fits32 (Index e) \<Longrightarrow> fits32 (Term e) \<Longrightarrow> toLogEntry (toPb e) = e"
  by (simp add: toLogEntry_def toPb_def int_of32_int32)

lemma fits_entryAt:
  "fits_log r \<Longrightarrow> wf_log r \<Longrightarrow> entryAt r i = Some e \<Longrightarrow> fits32 i \<and> fits32 (Term e) \<and> toLogEntry (toPb e) = e"
  using entryAt_SomeD(1,2) [of r i e] by (auto simp: fits_log_def list_all_iff toLogEntry_toPb)

lemma map_filter_all: "(\<And>x. x \<in> set xs \<Longrightarrow> f x = Some (g x)) \<Longrightarrow> List.map_filter f xs = map g xs"
  by (induction xs) (auto simp: map_filter_simps)

lemma pendingEntries_alt:
  assumes "wf_log r" and "logBaseIndex r \<le> n"
  shows "pendingEntries n r = map (\<lambda>i. toPb (the (entryAt r i))) [n..lastLogIndex r]"
  unfolding pendingEntries_def
proof (rule map_filter_all)
  fix i assume "i \<in> set [n..lastLogIndex r]"
  with assms show "map_option toPb (entryAt r i) = Some (toPb (the (entryAt r i)))"
    using entryAt_ne_None_iff [OF assms(1), of i] by auto
qed

lemma pendingEntries_slice:
  assumes "wf_log r" and "logBaseIndex r \<le> n"
  shows "pendingEntries n r = map toPb (filter (\<lambda>e. n \<le> Index e) (log_r r))"
proof -
  let ?b = "logBaseIndex r"
  have c: "contiguous ?b (log_r r)" using assms(1) by (simp add: wf_log_def)
  have "filter (\<lambda>e. n \<le> Index e) (log_r r) =
      filter (\<lambda>e. n - 1 < Index e \<and> Index e \<le> lastLogIndex r) (log_r r)"
    using contiguous_mem_range [OF c] lastLogIndex_wf [OF assms(1)] by (force intro: filter_cong)
  also have "\<dots> = map (\<lambda>i. log_r r ! nat (i - ?b)) [n..lastLogIndex r]"
    using contiguous_filter_range [OF c, of "n - 1" "lastLogIndex r"] assms
    by (simp add: lastLogIndex_wf)
  finally show ?thesis
    using assms by (auto simp: pendingEntries_alt entryAt_eq lastLogIndex_wf)
qed

lemma stretch_pending:
  assumes "wf_log r" and "fits_log r" and "logBaseIndex r \<le> prev" and "entryAt r prev = Some e"
  shows "stretch r (prev, Term e, pendingEntries (prev + 1) r)"
proof -
  have "0 \<le> prev" using assms(1,3) by (simp add: wf_log_def)
  moreover have "entryAt r (prev + 1 + int k) = Some (toLogEntry (pendingEntries (prev + 1) r ! k))"
    if "k < length (pendingEntries (prev + 1) r)" for k
  proof -
    from that assms(1,3) have k: "prev + 1 + int k \<le> lastLogIndex r"
      by (simp add: pendingEntries_alt)
    with assms(1,3) obtain x where x: "entryAt r (prev + 1 + int k) = Some x"
      using entryAt_ne_None_iff [OF assms(1), of "prev + 1 + int k"] by auto
    with fits_entryAt [OF assms(2,1)] that assms(1,3) show ?thesis
      by (simp add: pendingEntries_alt)
  qed
  ultimately show ?thesis using assms(4) by (simp add: stretch_def)
qed

lemma stretch_take: "stretch r (prev, pt, es) \<Longrightarrow> stretch r (prev, pt, take n es)"
  by (simp add: stretch_def)

lemma stretch_drop:
  assumes "wf_log r" and "stretch r (prev, pt, es)" and "es \<noteq> []" and "0 < n"
  shows "stretch r (int_of32 (pe_Index (last (take n es))), int_of32 (pe_Term (last (take n es))), drop n es)"
proof -
  define m where "m = min n (length es)"
  have m: "0 < m" "m \<le> length es" "last (take n es) = es ! (m - 1)" "drop n es = drop m es"
    using assms(3,4) by (auto simp: m_def last_conv_nth min_def)
  let ?e = "es ! (m - 1)"
  have "m - 1 < length es" using m(1,2) by simp
  with assms(2) have "entryAt r (prev + 1 + int (m - 1)) = Some (toLogEntry ?e)"
    unfolding stretch_def by blast
  then have e: "entryAt r (prev + int m) = Some (toLogEntry ?e)" "int_of32 (pe_Index ?e) = prev + int m"
    using entryAt_SomeD(1) [OF _ assms(1)] m(1) by (force simp: of_nat_diff)+
  moreover have "entryAt r (prev + int m + 1 + int k) = Some (toLogEntry (drop m es ! k))"
    if "k < length es - m" for k
    using assms(2) that m(2) by (auto simp: stretch_def dest!: spec [of _ "m + k"] simp: ac_simps)
  ultimately show ?thesis using assms(2) m by (simp add: stretch_def)
qed

lemma stretch_sentBy:
  assumes "wf_log r" and "fits_log r" and "stretch r x"
  shows "sentBy r (batchRequest t i c x)"
proof -
  obtain prev pt es where x: "x = (prev, pt, es)" by (cases x)
  with assms obtain e where "entryAt r prev = Some e" "Term e = pt" by (auto simp: stretch_def)
  with fits_entryAt [OF assms(2,1)] assms(3) show ?thesis
    by (auto simp: x sentBy_def batchRequest_def stretch_def int_of32_int32)
qed

lemma pipelineLoop_Nil [simp]: "pipelineLoop prev pt [] perms = []"
  by (subst pipelineLoop.simps) simp

lemma pipelineLoop_Permit:
  "es \<noteq> [] \<Longrightarrow> pipelineLoop prev pt es (Permit # perms) =
     (let batch = take maxEntriesPerBatch es
      in (prev, pt, batch) # pipelineLoop (int_of32 (pe_Index (last batch)))
           (int_of32 (pe_Term (last batch))) (drop maxEntriesPerBatch es) perms)"
  by (subst pipelineLoop.simps) (simp add: Let_def)

lemma pipelineLoop_Full:
  "es \<noteq> [] \<Longrightarrow> pipelineLoop prev pt es (Full # perms) =
     pipelineLoop prev pt (drop maxEntriesPerBatch es) perms"
  by (subst pipelineLoop.simps) (simp add: Let_def)

lemma pipelineLoop_all:
  assumes "wf_log r"
  shows "stretch r (prev, pt, es) \<Longrightarrow> set perms \<subseteq> {Permit} \<Longrightarrow>
     concat (map (\<lambda>x. snd (snd x)) (pipelineLoop prev pt es perms)) = es \<and>
     (\<forall>x \<in> set (pipelineLoop prev pt es perms). stretch r x \<and> length (snd (snd x)) \<le> 100)"
proof (induction es arbitrary: prev pt perms rule: length_induct)
  case (1 es)
  show ?case
  proof (cases "es = []")
    case True
    then show ?thesis by simp
  next
    case False
    let ?b = "take maxEntriesPerBatch es" and ?rest = "drop maxEntriesPerBatch es"
    let ?next = "pipelineLoop (int_of32 (pe_Index (last ?b))) (int_of32 (pe_Term (last ?b))) ?rest (tl perms)"
    have eq: "pipelineLoop prev pt es perms = (prev, pt, ?b) # ?next"
      using False 1(3) by (subst pipelineLoop.simps) (auto simp: Let_def split: list.split permit.split)
    have "length ?rest < length es" "0 < maxEntriesPerBatch" using False by (simp_all add: maxEntriesPerBatch_def)
    moreover have "set (tl perms) \<subseteq> {Permit}" using 1(3) by (cases perms) auto
    ultimately have "concat (map (\<lambda>x. snd (snd x)) ?next) = ?rest \<and>
        (\<forall>x \<in> set ?next. stretch r x \<and> length (snd (snd x)) \<le> 100)"
      using 1(1) stretch_drop [OF assms 1(2) False] by blast
    with eq stretch_take [OF 1(2), of maxEntriesPerBatch] show ?thesis
      by (auto simp: maxEntriesPerBatch_def)
  qed
qed


text \<open>The previous position a leader uses for a peer lies in its log.\<close>

lemma heartbeat_stretch:
  assumes "wf_log r" and "fits_log r" and "heartbeatFor p r = SendBatches q prev pt es c"
    and "logBaseIndex r \<le> prev"
  shows "stretch r (prev, pt, es)" and "q = p" and "c = commitIndex r"
    and "es = map toPb (filter (\<lambda>e. prev < Index e) (log_r r))"
proof -
  from assms(3) have f: "q = p" "c = commitIndex r" "es = pendingEntries (prev + 1) r" "prev \<le> lastLogIndex r"
      "pt = (case entryAt r prev of Some e \<Rightarrow> Term e | None \<Rightarrow> 0)"
    by (auto simp: heartbeatFor_def Let_def split: if_splits option.splits)
  then obtain e where "entryAt r prev = Some e"
    using entryAt_ne_None_iff [OF assms(1), of prev] assms(4) by auto
  with f stretch_pending [OF assms(1,2,4)] show "stretch r (prev, pt, es)" by simp
  show "q = p" "c = commitIndex r" by fact+
  show "es = map toPb (filter (\<lambda>e. prev < Index e) (log_r r))"
    using pendingEntries_slice [OF assms(1), of "prev + 1"] assms(4) f(3)
    by (simp add: add1_zle_eq)
qed

text \<open>C17: what a leader sends a peer is its own log. While permits are available, the batches
  of one round, put together, are exactly the entries behind the previous index, in order;
  no batch has more than a hundred; and the previous index and term of every batch are those
  of the entry just before it in the leader's log.\<close>

theorem batches_are_the_log:
  assumes "wf_log r" and "fits_log r" and "heartbeatFor p r = SendBatches p prev pt es c"
    and "logBaseIndex r \<le> prev" and "set perms \<subseteq> {Permit}"
  defines "batches \<equiv> sendBatchesWithPipeline prev pt es perms"
  shows "concat (map (\<lambda>x. snd (snd x)) batches) = map toPb (filter (\<lambda>e. prev < Index e) (log_r r)) \<and>
         (\<forall>x \<in> set batches. length (snd (snd x)) \<le> 100 \<and> sentBy r (batchRequest (term_r r) (id_r r) c x))"
proof -
  note h = heartbeat_stretch [OF assms(1-4)]
  show ?thesis
    using pipelineLoop_all [OF assms(1) h(1) assms(5)] h stretch_sentBy [OF assms(1,2)]
    by (auto simp: batches_def sendBatchesWithPipeline_def)
qed

text \<open>A leader that is about to send its last entry to a peer.\<close>

definition leader4 :: raft where
  "leader4 = node4\<lparr>state := Leader, leader := ''n1'', nextIndex := [''n2'' \<mapsto> 6]\<rparr>"

lemma leader4_facts:
  "wf_log leader4" "fits_log leader4" "entryAt leader4 = entryAt node4" "logBaseIndex leader4 = 4"
  "heartbeatFor ''n2'' leader4 = SendBatches ''n2'' 5 1 [\<lparr>pe_Index = 6, pe_Term = 2, pe_Data = ''b''\<rparr>] 0"
proof -
  show wf: "wf_log leader4" using wf_node4 by (simp add: wf_log_def leader4_def)
  show "fits_log leader4" by (simp add: fits_log_def leader4_def node4_def newRaft_def fits32_def)
  show e: "entryAt leader4 = entryAt node4" by (auto simp: entryAt_eq fun_eq_iff leader4_def)
  show "logBaseIndex leader4 = 4" by (simp add: leader4_def node4_def newRaft_def)
  have "pendingEntries 6 leader4 = [\<lparr>pe_Index = 6, pe_Term = 2, pe_Data = ''b''\<rparr>]"
    using pendingEntries_slice [OF wf, of 6] by (simp add: leader4_def node4_def newRaft_def toPb_def int32_def)
  moreover have "lastLogIndex leader4 = 6" "snapshot leader4 = None" "commitIndex leader4 = 0"
    "mget (nextIndex leader4) ''n2'' = 6"
    by (simp_all add: lastLogIndex_def leader4_def node4_def newRaft_def mget_def)
  ultimately show "heartbeatFor ''n2'' leader4 =
      SendBatches ''n2'' 5 1 [\<lparr>pe_Index = 6, pe_Term = 2, pe_Data = ''b''\<rparr>] 0"
    by (simp add: heartbeatFor_def e entryAt_node4)
qed

theorem batches_are_the_log_witness:
  "concat (map (\<lambda>x. snd (snd x))
     (sendBatchesWithPipeline 5 1 [\<lparr>pe_Index = 6, pe_Term = 2, pe_Data = ''b''\<rparr>] [Permit])) =
     map toPb (filter (\<lambda>e. 5 < Index e) (log_r leader4))"
  using batches_are_the_log [OF leader4_facts(1,2,5), of "[Permit]"] leader4_facts(4) by simp

subsection \<open>A skipped batch\<close>

lemma pipelineLoop_skip:
  assumes "maxEntriesPerBatch < length es"
  shows "hd (pipelineLoop prev pt es (Full # Permit # perms)) =
           (prev, pt, take maxEntriesPerBatch (drop maxEntriesPerBatch es))"
proof -
  have "es \<noteq> []" "drop maxEntriesPerBatch es \<noteq> []" using assms by auto
  then show ?thesis by (simp add: pipelineLoop_Full pipelineLoop_Permit Let_def)
qed

lemma skipped_batch_gap:
  assumes "wf_log r" and "fits_log r" and "heartbeatFor p r = SendBatches p prev pt es c"
    and "logBaseIndex r \<le> prev" and "100 < length es"
  defines "req \<equiv> batchRequest (term_r r) (id_r r) c (hd (sendBatchesWithPipeline prev pt es [Full, Permit]))"
  shows "int_of32 (ae_PrevLogIndex req) = prev" "ae_Entries req \<noteq> []"
    "contiguous (prev + 101) (map toLogEntry (ae_Entries req))"
proof -
  note h = heartbeat_stretch [OF assms(1-4)]
  let ?b = "take maxEntriesPerBatch (drop maxEntriesPerBatch es)"
  have hd: "hd (sendBatchesWithPipeline prev pt es [Full, Permit]) = (prev, pt, ?b)"
    using assms(5) pipelineLoop_skip [of es prev pt "[]"]
    by (auto simp: sendBatchesWithPipeline_def maxEntriesPerBatch_def)
  have at: "entryAt r (prev + 1 + int k) = Some (toLogEntry (es ! k))" if "k < length es" for k
    using h(1) that unfolding stretch_def by blast
  have "contiguous (prev + 1) (map toLogEntry es)"
    using entryAt_SomeD(1) [OF at assms(1)] by (auto simp: contiguous_def)
  from contiguous_drop [OF this, of 100] assms(5)
  have c: "contiguous (prev + 101) (map toLogEntry (drop 100 es))" by (simp add: drop_map add.commute)
  have "fits32 prev" using h(1) fits_entryAt [OF assms(2,1)] by (auto simp: stretch_def)
  with hd assms(5) show "int_of32 (ae_PrevLogIndex req) = prev" "ae_Entries req \<noteq> []"
    by (simp_all add: req_def batchRequest_def int_of32_int32 maxEntriesPerBatch_def)
  show "contiguous (prev + 101) (map toLogEntry (ae_Entries req))"
    using contiguous_take [OF c, of 100] hd
    by (simp add: req_def batchRequest_def maxEntriesPerBatch_def take_map)
qed

lemma appendLoop_beyond:
  "contiguous i (map toLogEntry es) \<Longrightarrow> base + int (length lg) \<le> i \<Longrightarrow>
     appendLoop base lg es = lg @ map toLogEntry es"
proof (induction es arbitrary: i lg)
  case (Cons e es)
  then have "appendLoop base (lg @ [toLogEntry e]) es = (lg @ [toLogEntry e]) @ map toLogEntry es"
    using Cons.IH [of "i + 1" "lg @ [toLogEntry e]"] by simp
  with Cons.prems show ?case by (simp add: Let_def)
qed simp

text \<open>C27: when the semaphore of a peer is full, the loop goes on to the next batch without
  having sent this one and keeps the previous position. A follower that is exactly at that
  position accepts the next batch although a hundred entries are missing before it: its log
  is no longer well-formed, and the index right behind the gap is answered with an entry that
  belongs a hundred places further on.\<close>

theorem skipped_batch_corrupts_follower:
  fixes now :: time
  assumes "wf_log r" and "fits_log r" and "heartbeatFor p r = SendBatches p prev pt es c"
    and "logBaseIndex r \<le> prev" and "100 < length es"
  defines "req \<equiv> batchRequest (term_r r) (id_r r) c (hd (sendBatchesWithPipeline prev pt es [Full, Permit]))"
  assumes "wf_log f" and "lastLogIndex f = prev" and "aer_Success (snd (AppendEntries now req f))"
  defines "f' \<equiv> fst (AppendEntries now req f)"
  shows "\<not> wf_log f' \<and> map_option Index (entryAt f' (prev + 1)) = Some (prev + 101)"
proof -
  note g = skipped_batch_gap [OF assms(1-5), folded req_def]
  have len: "logBaseIndex f + int (length (log_r f)) = prev + 1"
    using assms(7,8) by (simp add: lastLogIndex_wf)
  have lg: "log_r f' = log_r f @ map toLogEntry (ae_Entries req)" "logBaseIndex f' = logBaseIndex f"
    using assms(9) appendLoop_beyond [OF g(3)] len by (simp_all add: f'_def AppendEntries_log)
  obtain e es' where e: "ae_Entries req = e # es'" using g(2) by (cases "ae_Entries req") auto
  with g(3) have i: "int_of32 (pe_Index e) = prev + 101" by simp
  have at: "entryAt f' (prev + 1) = Some (toLogEntry e)"
    using len e by (auto simp: entryAt_eq lg nth_append)
  moreover have "\<not> wf_log f'" using entryAt_SomeD(1) [OF at] i by auto
  ultimately show ?thesis using i by simp
qed

definition longLog :: "LogEntry list" where
  "longLog = map (\<lambda>k. \<lparr>Index = int k, Term = if k = 0 then 0 else 1, Data = []\<rparr>) [0..<103]"

definition longLeader :: raft where
  "longLeader = newRaft ''n1'' [''n2''] 1 ''n1'' 0 longLog 0 None ''d'' \<lparr>files = Map.empty, faults = []\<rparr>
     \<lparr>state := Leader, nextIndex := [''n2'' \<mapsto> 1]\<rparr>"

definition emptyFollower :: raft where
  "emptyFollower = newRaft ''n2'' [''n1''] 1 [] 0 [\<lparr>Index = 0, Term = 0, Data = []\<rparr>] 0 None ''d''
     \<lparr>files = Map.empty, faults = []\<rparr>"

theorem skipped_batch_corrupts_follower_witness:
  "\<exists>req. wf_log emptyFollower \<and> \<not> wf_log (fst (AppendEntries 5 req emptyFollower))"
proof -
  have wf: "wf_log longLeader" by (simp add: wf_log_def longLeader_def newRaft_def longLog_def contiguous_def)
  have fits: "fits_log longLeader"
    by (auto simp: fits_log_def longLeader_def newRaft_def longLog_def list_all_iff fits32_def)
  have last: "lastLogIndex longLeader = 102" "entryAt longLeader 0 = Some \<lparr>Index = 0, Term = 0, Data = []\<rparr>"
    by (simp_all add: lastLogIndex_def entryAt_eq longLeader_def newRaft_def longLog_def last_map)
  define es where "es = pendingEntries 1 longLeader"
  have h: "heartbeatFor ''n2'' longLeader = SendBatches ''n2'' 0 0 es 0"
    using last by (simp add: heartbeatFor_def es_def mget_def) (simp add: longLeader_def newRaft_def mget_def)
  have b: "logBaseIndex longLeader \<le> 0" by (simp add: longLeader_def newRaft_def)
  have l: "100 < length es"
    using pendingEntries_alt [OF wf, of 1] b last(1) by (simp add: es_def)
  have wf2: "wf_log emptyFollower" "lastLogIndex emptyFollower = 0"
    by (simp_all add: wf_log_def lastLogIndex_def emptyFollower_def newRaft_def)
  let ?req = "batchRequest (term_r longLeader) (id_r longLeader) 0 (hd (sendBatchesWithPipeline 0 0 es [Full, Permit]))"
  have "int_of32 (ae_PrevLogIndex ?req) = 0" by (rule skipped_batch_gap(1) [OF wf fits h b l])
  then have "aer_Success (snd (AppendEntries 5 ?req emptyFollower))"
    by (simp add: AppendEntries_success_iff prevMatches_def)
       (simp add: isKnownNode_def emptyFollower_def longLeader_def newRaft_def batchRequest_def int_of32_def int32_def
         case_prod_beta)
  from skipped_batch_corrupts_follower [OF wf fits h b l wf2 this] wf2(1) show ?thesis by blast
qed

subsection \<open>A round of replication\<close>

lemma batchRequest_sel [simp]:
  "ae_PrevLogIndex (batchRequest t i c x) = int32 (fst x)" "ae_Entries (batchRequest t i c x) = snd (snd x)"
  "ae_Term (batchRequest t i c x) = int32 t" "ae_LeaderId (batchRequest t i c x) = i"
  by (simp_all add: batchRequest_def case_prod_beta)

lemma updateCommit_log [simp]: "entryAt (updateCommitIndexLocked r) = entryAt r"
  by (auto simp: entryAt_eq fun_eq_iff)

lemma handleAppend_match:
  assumes "term_r l \<ge> int_of32 (aer_Term resp)" and "aer_Success resp" and "p \<in> set (peers l)"
    and "wf_log l" and "stretch l (prev, pt, es)"
  defines "l' \<equiv> fst (handleAppendResponse p prev es resp l)"
  shows "mget (matchIndex l') p = prev + int (length es)"
    and "mget (nextIndex l') p = prev + int (length es) + 1"
    and "entryAt l' = entryAt l" and "logBaseIndex l' = logBaseIndex l"
proof -
  have b: "logBaseIndex l \<le> prev"
    using assms(5) entryAt_SomeD(3) [OF _ assms(4)] by (auto simp: stretch_def)
  have last: "int_of32 (pe_Index (last es)) = prev + int (length es)" if "es \<noteq> []"
  proof -
    from that have "length es - 1 < length es" by simp
    with assms(5) have "entryAt l (prev + 1 + int (length es - 1)) = Some (toLogEntry (es ! (length es - 1)))"
      unfolding stretch_def by blast
    from entryAt_SomeD(1) [OF this assms(4)] that show ?thesis
      by (simp add: last_conv_nth of_nat_diff Suc_leI)
  qed
  show "mget (matchIndex l') p = prev + int (length es)"
    "mget (nextIndex l') p = prev + int (length es) + 1"
    "entryAt l' = entryAt l" "logBaseIndex l' = logBaseIndex l"
    using assms(1-3) b last
    by (auto simp: l'_def handleAppendResponse_def Let_def entryAt_eq fun_eq_iff)
qed



subsection \<open>Backing up\<close>

text \<open>The leader's state after \<open>n\<close> rejections by a peer.\<close>

definition rejected :: "NodeID \<Rightarrow> int32 \<Rightarrow> nat \<Rightarrow> raft \<Rightarrow> raft" where
  "rejected p t n r =
     ((\<lambda>r. fst (handleAppendResponse p 0 [] \<lparr>aer_Term = t, aer_Success = False\<rparr> r)) ^^ n) r"

lemma handleAppend_reject:
  assumes "int_of32 (aer_Term resp) \<le> term_r r" and "\<not> aer_Success resp"
    and "case snapshot r of Some s \<Rightarrow> LastIncludedIndex s < mget (nextIndex r) p | None \<Rightarrow> True"
  shows "fst (handleAppendResponse p i es resp r) =
     (if logBaseIndex r + 1 < mget (nextIndex r) p
      then r\<lparr>nextIndex := (nextIndex r)(p \<mapsto> mget (nextIndex r) p - 1)\<rparr> else r)"
  using assms by (auto simp: handleAppendResponse_def split: option.splits)

text \<open>The snapshot does not reach beyond the base of the log.\<close>

definition snapshot_at_base :: "raft \<Rightarrow> bool" where
  "snapshot_at_base r \<longleftrightarrow>
     (case snapshot r of Some s \<Rightarrow> LastIncludedIndex s \<le> logBaseIndex r | None \<Rightarrow> True)"

lemma snapshot_at_base_nextIndex [simp]:
  "snapshot_at_base (r\<lparr>nextIndex := m\<rparr>) = snapshot_at_base r"
  by (cases "snapshot r") (simp_all add: snapshot_at_base_def)

lemma rejected_state:
  assumes "int_of32 t \<le> term_r r" and "logBaseIndex r < mget (nextIndex r) p"
    and "snapshot_at_base r"
  shows "\<exists>m. rejected p t n r = r\<lparr>nextIndex := m\<rparr> \<and>
           mget m p = max (logBaseIndex r + 1) (mget (nextIndex r) p - int n)"
proof (induction n)
  case 0
  show ?case using assms(2) by (intro exI [of _ "nextIndex r"]) (simp add: rejected_def)
next
  case (Suc n)
  then obtain m where m: "rejected p t n r = r\<lparr>nextIndex := m\<rparr>"
    "mget m p = max (logBaseIndex r + 1) (mget (nextIndex r) p - int n)" by blast
  let ?q = "r\<lparr>nextIndex := m\<rparr>"
  let ?resp = "\<lparr>aer_Term = t, aer_Success = False\<rparr>"
  have "rejected p t (Suc n) r = fst (handleAppendResponse p 0 [] ?resp (rejected p t n r))"
    by (simp add: rejected_def)
  also have "\<dots> = fst (handleAppendResponse p 0 [] ?resp ?q)" by (simp only: m(1))
  also have "\<dots> = (if logBaseIndex ?q + 1 < mget (nextIndex ?q) p
      then ?q\<lparr>nextIndex := (nextIndex ?q)(p \<mapsto> mget (nextIndex ?q) p - 1)\<rparr> else ?q)"
  proof (rule handleAppend_reject)
    show "case snapshot ?q of Some s \<Rightarrow> LastIncludedIndex s < mget (nextIndex ?q) p | None \<Rightarrow> True"
      using assms(3) m(2) by (cases "snapshot r") (simp_all add: snapshot_at_base_def)
  qed (use assms(1) in simp_all)
  finally have eq: "rejected p t (Suc n) r =
      (if logBaseIndex r + 1 < mget m p then r\<lparr>nextIndex := m(p \<mapsto> mget m p - 1)\<rparr> else ?q)"
    by simp
  show ?case
  proof (cases "logBaseIndex r + 1 < mget m p")
    case True
    then have "rejected p t (Suc n) r = r\<lparr>nextIndex := m(p \<mapsto> mget m p - 1)\<rparr>" using eq by simp
    moreover have "mget (m(p \<mapsto> mget m p - 1)) p = max (logBaseIndex r + 1) (mget (nextIndex r) p - int (Suc n))"
      unfolding mget_upd using True m(2) by simp
    ultimately show ?thesis by blast
  next
    case False
    then have "rejected p t (Suc n) r = r\<lparr>nextIndex := m\<rparr>" using eq by simp
    moreover have "mget m p = max (logBaseIndex r + 1) (mget (nextIndex r) p - int (Suc n))"
      using False m(2) by simp
    ultimately show ?thesis by blast
  qed
qed

lemma heartbeat_batches:
  assumes "logBaseIndex r < mget (nextIndex r) p" and "mget (nextIndex r) p \<le> lastLogIndex r + 1"
    and "0 \<le> logBaseIndex r"
    and "snapshot_at_base r"
  shows "heartbeatFor p r = SendBatches p (mget (nextIndex r) p - 1)
     (case entryAt r (mget (nextIndex r) p - 1) of Some e \<Rightarrow> Term e | None \<Rightarrow> 0)
     (pendingEntries (mget (nextIndex r) p) r) (commitIndex r)"
  using assms by (auto simp: heartbeatFor_def snapshot_at_base_def Let_def split: option.splits)


lemma leader4_fields:
  "term_r leader4 = 2" "id_r leader4 = ''n1''" "mget (nextIndex leader4) ''n2'' = 6"
  "lastLogIndex leader4 = 6" "snapshot leader4 = None" "snapshot_at_base leader4"
  by (simp_all add: leader4_def node4_def newRaft_def mget_def lastLogIndex_def snapshot_at_base_def)


text \<open>A follower that has fallen behind the leader's compacted log is never caught up by
  backing up. The leader stops one above its base, which is one above the snapshot's index,
  so it never decides to send the snapshot; and a follower whose log ends before that base
  rejects every batch, however often.\<close>

theorem lagging_follower_stuck:
  fixes now :: time
  assumes "wf_log l" and "fits_log l" and "int_of32 t \<le> term_r l"
    and "logBaseIndex l < mget (nextIndex l) p" and "mget (nextIndex l) p \<le> lastLogIndex l + 1"
    and "snapshot l = Some s" and "LastIncludedIndex s = logBaseIndex l"
    and "wf_log f" and "lastLogIndex f < logBaseIndex l"
  shows "\<exists>prev pt es c. heartbeatFor p (rejected p t n l) = SendBatches p prev pt es c \<and>
           (\<forall>x \<in> set (sendBatchesWithPipeline prev pt es []).
              \<not> aer_Success (snd (AppendEntries now (batchRequest (term_r l) (id_r l) c x) f)))"
proof -
  let ?b = "logBaseIndex l"
  have snap: "snapshot_at_base l"
    using assms(6,7) by (simp add: snapshot_at_base_def)
  obtain m where m: "rejected p t n l = l\<lparr>nextIndex := m\<rparr>"
    "mget m p = max (?b + 1) (mget (nextIndex l) p - int n)"
    using rejected_state [OF assms(3,4) snap, of n] by blast
  let ?q = "l\<lparr>nextIndex := m\<rparr>"
  have wf: "wf_log ?q" and fits: "fits_log ?q" using assms(1,2) by (simp_all add: wf_log_def fits_log_def)
  have eq: "entryAt ?q = entryAt l" "lastLogIndex ?q = lastLogIndex l"
    by (auto simp: entryAt_eq lastLogIndex_def fun_eq_iff)
  define prev where "prev = mget m p - 1"
  have pb: "?b \<le> prev" using m(2) by (simp add: prev_def)
  obtain pt es c where hb: "heartbeatFor p ?q = SendBatches p prev pt es c"
    using heartbeat_batches [of ?q p] m(2) base_le_last [OF assms(1)] assms(1,4,5) snap
    by (auto simp: eq wf_log_def prev_def)
  have st: "stretch ?q (prev, pt, es)" using heartbeat_stretch(1) [OF wf fits hb] pb by simp
  have "\<not> aer_Success (snd (AppendEntries now (batchRequest (term_r l) (id_r l) c x) f))"
    if x: "x \<in> set (sendBatchesWithPipeline prev pt es [])" for x
  proof -
    have "stretch ?q x"
      using pipelineLoop_all [OF wf st, of "[]"] x st by (auto simp: sendBatchesWithPipeline_def split: if_splits)
    then obtain e where e: "entryAt ?q (fst x) = Some e" by (cases x) (auto simp: stretch_def)
    then have "?b \<le> fst x" "fits32 (fst x)"
      using entryAt_SomeD(3) [OF e wf] fits_entryAt [OF fits wf e] by simp_all
    moreover have "0 \<le> logBaseIndex f" "logBaseIndex f \<le> lastLogIndex f"
      using assms(8) base_le_last [OF assms(8)] by (simp_all add: wf_log_def)
    moreover have "entryAt f (fst x) = None"
      using entryAt_ne_None_iff [OF assms(8), of "fst x"] assms(9) calculation(1) by auto
    ultimately show ?thesis
      using assms(9) by (auto simp: AppendEntries_success_iff prevMatches_def int_of32_int32)
  qed
  with hb m(1) show ?thesis by auto
qed

theorem lagging_follower_stuck_witness:
  "let l = leader4\<lparr>snapshot := Some \<lparr>LastIncludedIndex = 4, LastIncludedTerm = 1, CreatedAt = 0, SnapData = []\<rparr>\<rparr> in
   \<exists>prev pt es c. heartbeatFor ''n2'' (rejected ''n2'' 2 7 l) = SendBatches ''n2'' prev pt es c \<and>
     (\<forall>x \<in> set (sendBatchesWithPipeline prev pt es []).
        \<not> aer_Success (snd (AppendEntries 9 (batchRequest 2 ''n1'' c x) emptyFollower)))"
proof -
  let ?s = "\<lparr>LastIncludedIndex = 4, LastIncludedTerm = 1, CreatedAt = 0, SnapData = []\<rparr>"
  let ?l = "leader4\<lparr>snapshot := Some ?s\<rparr>"
  have wf: "wf_log ?l" "fits_log ?l" using leader4_facts(1,2) by (simp_all add: wf_log_def fits_log_def)
  have t: "int_of32 2 \<le> term_r ?l" using leader4_fields by (simp add: int_of32_def)
  have last: "lastLogIndex ?l = 6" using leader4_fields(4) by (simp add: lastLogIndex_def split: if_splits)
  have n: "logBaseIndex ?l < mget (nextIndex ?l) ''n2''" "mget (nextIndex ?l) ''n2'' \<le> lastLogIndex ?l + 1"
    using leader4_fields leader4_facts(4) last by simp_all
  have s: "snapshot ?l = Some ?s" "LastIncludedIndex ?s = logBaseIndex ?l" using leader4_facts(4) by simp_all
  have f: "wf_log emptyFollower" "lastLogIndex emptyFollower < logBaseIndex ?l"
    using leader4_facts(4) by (simp_all add: wf_log_def lastLogIndex_def emptyFollower_def newRaft_def)
  have "term_r ?l = 2" "id_r ?l = ''n1''" using leader4_fields by simp_all
  with lagging_follower_stuck [OF wf t n s f, of 7 9] show ?thesis by (simp only: Let_def)
qed

end
