(* ===== verification/Conn_Pool.thy ===== *)
theory Conn_Pool
  imports Prelude
begin

section \<open>The connection pool\<close>

text \<open>
  \<^verbatim>\<open>internal/raft/conn_pool.go\<close>. A gRPC connection is a number; what gRPC answers is an
  argument: whether a connection is ready or idle (\<open>healthy\<close>), and what dialling returns. The
  model records which connections were ever opened and closed, so that leaks can be stated.
\<close>

type_synonym conn = nat

record pooledConnection =
  pc_conn :: conn
  pc_refs :: int

record connectionPool =
  conns :: "string \<rightharpoonup> pooledConnection"
  opened :: "conn set"
  closedC :: "conn set"

definition newConnectionPool :: connectionPool where
  "newConnectionPool = \<lparr>conns = Map.empty, opened = {}, closedC = {}\<rparr>"

definition closeConn :: "conn \<Rightarrow> connectionPool \<Rightarrow> connectionPool" where
  "closeConn c p = p\<lparr>closedC := insert c (closedC p)\<rparr>"

text \<open>The second half of \<^verbatim>\<open>getConnection\<close>: \<open>custom\<close> says whether a custom dialer is set;
  its connections are not pooled.\<close>

definition dialNew :: "bool \<Rightarrow> error + conn \<Rightarrow> string \<Rightarrow> connectionPool \<Rightarrow> connectionPool \<times> (error + conn)" where
  "dialNew custom dial addr p =
     (case dial of
        Inl err \<Rightarrow> (p, Inl err)
      | Inr c \<Rightarrow>
          if custom then (p, Inr c)
          else (p\<lparr>conns := (conns p)(addr \<mapsto> \<lparr>pc_conn = c, pc_refs = 1\<rparr>),
                  opened := insert c (opened p)\<rparr>, Inr c))"

definition getConnection ::
  "(conn \<Rightarrow> bool) \<Rightarrow> bool \<Rightarrow> error + conn \<Rightarrow> string \<Rightarrow> connectionPool \<Rightarrow> connectionPool \<times> (error + conn)"
where
  "getConnection healthy custom dial addr p =
     (case conns p addr of
        Some pooled \<Rightarrow>
          if healthy (pc_conn pooled)
          then (p\<lparr>conns := (conns p)(addr \<mapsto> pooled\<lparr>pc_refs := pc_refs pooled + 1\<rparr>)\<rparr>, Inr (pc_conn pooled))
          else
            let p1 = closeConn (pc_conn pooled) p
            in dialNew custom dial addr (p1\<lparr>conns := (conns p1)(addr := None)\<rparr>)
      | None \<Rightarrow> dialNew custom dial addr p)"

text \<open>\<^verbatim>\<open>dialPeer\<close> of \<^verbatim>\<open>rpc_client.go\<close>: a custom dialer bypasses the pool.\<close>

definition dialPeer ::
  "(conn \<Rightarrow> bool) \<Rightarrow> bool \<Rightarrow> error + conn \<Rightarrow> string \<Rightarrow> connectionPool \<Rightarrow> connectionPool \<times> (error + conn)"
where
  "dialPeer healthy hasCustomDialer dial addr p =
     (if hasCustomDialer then (p, dial) else getConnection healthy hasCustomDialer dial addr p)"

definition releaseConnection :: "string \<Rightarrow> connectionPool \<Rightarrow> connectionPool" where
  "releaseConnection addr p =
     (case conns p addr of
        None \<Rightarrow> p
      | Some pooled \<Rightarrow>
          if 0 < pc_refs pooled
          then p\<lparr>conns := (conns p)(addr \<mapsto> pooled\<lparr>pc_refs := pc_refs pooled - 1\<rparr>)\<rparr>
          else p)"

definition removeConnection :: "string \<Rightarrow> connectionPool \<Rightarrow> connectionPool" where
  "removeConnection addr p =
     (case conns p addr of
        None \<Rightarrow> p
      | Some pooled \<Rightarrow>
          let p1 = closeConn (pc_conn pooled) p in p1\<lparr>conns := (conns p1)(addr := None)\<rparr>)"

text \<open>The range over the map visits the addresses in some order.\<close>

definition closeAll :: "string list \<Rightarrow> connectionPool \<Rightarrow> connectionPool" where
  "closeAll order p = fold removeConnection order p"

subsection \<open>No connection leaks\<close>

text \<open>The connections that are open are exactly those in the pool, each under one address,
  with a reference count that is not negative.\<close>

definition pool_wf :: "connectionPool \<Rightarrow> bool" where
  "pool_wf p \<longleftrightarrow> opened p - closedC p = pc_conn ` ran (conns p) \<and>
     (\<forall>a b x y. conns p a = Some x \<and> conns p b = Some y \<and> pc_conn x = pc_conn y \<longrightarrow> a = b) \<and>
     (\<forall>a x. conns p a = Some x \<longrightarrow> 0 \<le> pc_refs x)"

datatype poolOp =
    Get "conn set" bool "error + conn" string
  | Release string
  | Remove string

fun poolStep :: "poolOp \<Rightarrow> connectionPool \<Rightarrow> connectionPool" where
  "poolStep (Get healthy custom dial addr) p = fst (getConnection (\<lambda>c. c \<in> healthy) custom dial addr p)"
| "poolStep (Release addr) p = releaseConnection addr p"
| "poolStep (Remove addr) p = removeConnection addr p"

text \<open>Dialling gives a connection that was not there before.\<close>

fun fresh_dial :: "poolOp \<Rightarrow> connectionPool \<Rightarrow> bool" where
  "fresh_dial (Get healthy custom (Inr c) addr) p \<longleftrightarrow> c \<notin> opened p \<and> c \<notin> closedC p"
| "fresh_dial _ p \<longleftrightarrow> True"

lemma pool_wf_open: "pool_wf p \<Longrightarrow> conns p a = Some x \<Longrightarrow> pc_conn x \<in> opened p \<and> pc_conn x \<notin> closedC p"
  by (force simp: pool_wf_def ran_def)

lemma pool_wf_nonneg: "pool_wf p \<Longrightarrow> conns p a = Some x \<Longrightarrow> 0 \<le> pc_refs x"
  by (simp add: pool_wf_def)

lemma pool_wf_inj:
  "pool_wf p \<Longrightarrow> conns p a = Some x \<Longrightarrow> conns p b = Some y \<Longrightarrow> pc_conn x = pc_conn y \<Longrightarrow> a = b"
  unfolding pool_wf_def by blast

lemma pool_wfI:
  assumes "opened p - closedC p = pc_conn ` ran (conns p)"
    and "\<And>a b x y. conns p a = Some x \<Longrightarrow> conns p b = Some y \<Longrightarrow> pc_conn x = pc_conn y \<Longrightarrow> a = b"
    and "\<And>a x. conns p a = Some x \<Longrightarrow> 0 \<le> pc_refs x"
  shows "pool_wf p"
  using assms unfolding pool_wf_def by blast

lemma ran_conns: "pc_conn ` ran m = {c. \<exists>a x. m a = Some x \<and> pc_conn x = c}"
  by (auto simp: ran_def)

lemma pool_wf_refs:
  assumes "pool_wf p" and "conns p a = Some x" and "0 \<le> n"
  shows "pool_wf (p\<lparr>conns := (conns p)(a \<mapsto> x\<lparr>pc_refs := n\<rparr>)\<rparr>)"
proof (rule pool_wfI)
  let ?m = "(conns p)(a \<mapsto> x\<lparr>pc_refs := n\<rparr>)"
  have "(\<exists>y. ?m b = Some y \<and> pc_conn y = c) \<longleftrightarrow> (\<exists>y. conns p b = Some y \<and> pc_conn y = c)" for b c
    using assms(2) by simp
  then have "pc_conn ` ran ?m = pc_conn ` ran (conns p)" by (simp add: ran_conns)
  with assms(1) show "opened (p\<lparr>conns := ?m\<rparr>) - closedC (p\<lparr>conns := ?m\<rparr>) = pc_conn ` ran (conns (p\<lparr>conns := ?m\<rparr>))"
    by (simp add: pool_wf_def)
next
  show "b = d" if "conns (p\<lparr>conns := (conns p)(a \<mapsto> x\<lparr>pc_refs := n\<rparr>)\<rparr>) b = Some y"
    "conns (p\<lparr>conns := (conns p)(a \<mapsto> x\<lparr>pc_refs := n\<rparr>)\<rparr>) d = Some z" "pc_conn y = pc_conn z" for b d y z
  proof -
    have "\<exists>y'. conns p b = Some y' \<and> pc_conn y' = pc_conn y" using that(1) assms(2) by (cases "b = a") auto
    moreover have "\<exists>z'. conns p d = Some z' \<and> pc_conn z' = pc_conn z" using that(2) assms(2) by (cases "d = a") auto
    ultimately show ?thesis using that(3) pool_wf_inj [OF assms(1)] by metis
  qed
qed (use assms(3) pool_wf_nonneg [OF assms(1)] in \<open>auto split: if_splits\<close>)

lemma pool_wf_drop:
  assumes "pool_wf p" and "conns p a = Some x"
  shows "pool_wf (p\<lparr>closedC := insert (pc_conn x) (closedC p), conns := (conns p)(a := None)\<rparr>)"
    (is "pool_wf ?q")
proof (rule pool_wfI)
  have "(\<exists>y. conns ?q b = Some y \<and> pc_conn y = c) \<longleftrightarrow>
      (\<exists>y. conns p b = Some y \<and> pc_conn y = c) \<and> c \<noteq> pc_conn x" for b c
    using assms(2) pool_wf_inj [OF assms(1) assms(2), of b] by (cases "b = a") auto
  then have "pc_conn ` ran (conns ?q) = pc_conn ` ran (conns p) - {pc_conn x}" unfolding ran_conns by blast
  moreover have "opened p - closedC p = pc_conn ` ran (conns p)" using assms(1) by (simp add: pool_wf_def)
  ultimately show "opened ?q - closedC ?q = pc_conn ` ran (conns ?q)" by auto
next
  show "b = d" if "conns ?q b = Some y" "conns ?q d = Some z" "pc_conn y = pc_conn z" for b d y z
    using that pool_wf_inj [OF assms(1), of b y d z] by (cases "b = a"; cases "d = a") auto
qed (use pool_wf_nonneg [OF assms(1)] in \<open>auto split: if_splits\<close>)

lemma pool_wf_add:
  assumes "pool_wf p" and "conns p a = None" and "c \<notin> opened p" and "c \<notin> closedC p"
  shows "pool_wf (p\<lparr>conns := (conns p)(a \<mapsto> \<lparr>pc_conn = c, pc_refs = 1\<rparr>), opened := insert c (opened p)\<rparr>)"
    (is "pool_wf ?q")
proof (rule pool_wfI)
  have "pc_conn ` ran (conns ?q) = insert c (pc_conn ` ran (conns p))"
    using assms(2) by (simp add: ran_map_upd)
  moreover have "opened p - closedC p = pc_conn ` ran (conns p)" using assms(1) by (simp add: pool_wf_def)
  ultimately show "opened ?q - closedC ?q = pc_conn ` ran (conns ?q)" using assms(4) by (simp add: insert_Diff_if)
next
  have ne: "pc_conn x \<noteq> c" if "conns p b = Some x" for b x
    using pool_wf_open [OF assms(1) that] assms(3) by auto
  show "b = d" if "conns ?q b = Some y" "conns ?q d = Some z" "pc_conn y = pc_conn z" for b d y z
  proof (cases "b = a")
    case True
    with that(1) have "pc_conn y = c" by auto
    with that(2,3) ne [of d z] True show ?thesis by (cases "d = a") auto
  next
    case False
    with that(1) have y: "conns p b = Some y" by simp
    with that(2,3) ne [OF y] have "conns p d = Some z" by (cases "d = a") auto
    from pool_wf_inj [OF assms(1) y this that(3)] show ?thesis .
  qed
qed (use pool_wf_nonneg [OF assms(1)] in \<open>auto split: if_splits\<close>)

lemma pool_wf_dialNew:
  assumes "pool_wf p" and "conns p a = None" and "\<And>c. dial = Inr c \<Longrightarrow> c \<notin> opened p \<and> c \<notin> closedC p"
  shows "pool_wf (fst (dialNew custom dial a p))"
  using assms pool_wf_add [OF assms(1,2)] by (auto simp: dialNew_def split: sum.split)

lemma pool_wf_step:
  assumes "pool_wf p" and "fresh_dial m p"
  shows "pool_wf (poolStep m p)"
proof (cases m)
  case (Get h custom dial a)
  have fr: "c \<notin> opened p \<and> c \<notin> closedC p" if "dial = Inr c" for c
    using assms(2) Get that by simp
  show ?thesis
  proof (cases "conns p a")
    case None
    with Get pool_wf_dialNew [OF assms(1) None fr] show ?thesis by (simp add: getConnection_def)
  next
    case (Some x)
    let ?q = "p\<lparr>closedC := insert (pc_conn x) (closedC p), conns := (conns p)(a := None)\<rparr>"
    have "c \<notin> opened ?q \<and> c \<notin> closedC ?q" if "dial = Inr c" for c
      using fr [OF that] pool_wf_open [OF assms(1) Some] by auto
    from pool_wf_dialNew [OF pool_wf_drop [OF assms(1) Some] _ this]
    moreover have "pool_wf (p\<lparr>conns := (conns p)(a \<mapsto> x\<lparr>pc_refs := pc_refs x + 1\<rparr>)\<rparr>)"
      using pool_wf_refs [OF assms(1) Some, of "pc_refs x + 1"] pool_wf_nonneg [OF assms(1) Some] by simp
    ultimately show ?thesis using Get Some by (simp add: getConnection_def closeConn_def Let_def)
  qed
next
  case (Release a)
  with assms(1) show ?thesis
    by (auto simp: releaseConnection_def intro: pool_wf_refs split: option.split)
next
  case (Remove a)
  with assms(1) show ?thesis
    by (auto simp: removeConnection_def closeConn_def Let_def intro: pool_wf_drop split: option.split)
qed

interpretation cpool: kept_invariant poolStep pool_wf fresh_dial
  by unfold_locales (rule pool_wf_step)

lemma getConnection_usable:
  assumes "pool_wf p" and "\<And>c. dial = Inr c \<Longrightarrow> c \<notin> closedC p \<and> c \<notin> opened p"
    and "getConnection healthy False dial addr p = (p', Inr c)"
  shows "c \<notin> closedC p' \<and> (healthy c \<or> dial = Inr c) \<and>
         (\<exists>x. conns p' addr = Some x \<and> pc_conn x = c \<and> 0 < pc_refs x)"
proof (cases "conns p addr")
  case None
  with assms(2,3) show ?thesis by (auto simp: getConnection_def dialNew_def split: sum.splits)
next
  case (Some x)
  with assms(2,3) pool_wf_open [OF assms(1) Some] pool_wf_nonneg [OF assms(1) Some] show ?thesis
    by (auto simp: getConnection_def dialNew_def closeConn_def Let_def split: sum.splits if_splits)
qed

lemma closeAll_opened [simp]: "opened (closeAll order p) = opened p"
  unfolding closeAll_def
  by (induction order arbitrary: p) (auto simp: removeConnection_def closeConn_def Let_def split: option.split)

lemma closeAll_wf: "pool_wf p \<Longrightarrow> pool_wf (closeAll order p)"
  unfolding closeAll_def
proof (induction order arbitrary: p)
  case (Cons a order)
  have "pool_wf (removeConnection a p)" using pool_wf_step [OF Cons.prems, of "Remove a"] by simp
  with Cons.IH show ?case by simp
qed simp

lemma closeAll_dom: "dom (conns (closeAll order p)) = dom (conns p) - set order"
  unfolding closeAll_def
proof (induction order arbitrary: p)
  case (Cons a order)
  have "dom (conns (removeConnection a p)) = dom (conns p) - {a}"
    by (auto simp: removeConnection_def closeConn_def Let_def split: option.split)
  with Cons show ?case by auto
qed simp

lemma pool_wf_new: "pool_wf newConnectionPool"
  by (simp add: pool_wf_def newConnectionPool_def)


definition poolRun4 :: "poolOp list" where
  "poolRun4 = [Get {} False (Inr 1) ''a'', Get {1} False (Inr 2) ''a'', Get {} False (Inr 3) ''a'', Release ''a'']"


end
