(* ===== verification/Raft_Admin.thy ===== *)
theory Raft_Admin
  imports Raft_Sender Conn_Pool
begin

section \<open>Administrative operations\<close>

text \<open>
  Adding and removing nodes and handing over leadership (\<^verbatim>\<open>raft.go\<close>, \<^verbatim>\<open>rpc.go\<close>), and
  stopping a node. An operation that waits for an entry to be applied takes the outcome of the
  wait as an argument: whether the channel was closed before the timer of five seconds ran
  out. The state is the node with its connection pool.
\<close>

record raftProc =
  pr_node :: raft
  pr_pool :: connectionPool
  pr_stopped :: bool

subsection \<open>Membership\<close>

definition AddNodeInternal ::
  "bool \<Rightarrow> NodeID \<Rightarrow> raftProc \<Rightarrow> raftProc \<times> outgoing list \<times> error option"
where
  "AddNodeInternal inTime nodeID s =
     (case proposeConfigChange ConfigAddNode nodeID (pr_node s) of
        (r1, Inl err) \<Rightarrow> (s\<lparr>pr_node := r1\<rparr>, [], Some err)
      | (r1, Inr index) \<Rightarrow>
          let (r2, out) = sendHeartbeats r1; (r3, ch) = AppliedWait index r2
          in (s\<lparr>pr_node := r3\<rparr>, out,
              if inTime then None else Some ''add node config change timed out''))"

definition RemoveNodeInternal ::
  "bool \<Rightarrow> NodeID \<Rightarrow> raftProc \<Rightarrow> raftProc \<times> outgoing list \<times> error option"
where
  "RemoveNodeInternal inTime nodeID s =
     (case proposeConfigChange ConfigRemoveNode nodeID (pr_node s) of
        (r1, Inl err) \<Rightarrow> (s\<lparr>pr_node := r1\<rparr>, [], Some err)
      | (r1, Inr index) \<Rightarrow>
          let (r2, out) = sendHeartbeats r1; (r3, ch) = AppliedWait index r2
          in if inTime
             then (s\<lparr>pr_node := r3, pr_pool := removeConnection nodeID (pr_pool s)\<rparr>, out, None)
             else (s\<lparr>pr_node := r3\<rparr>, out, Some ''remove node config change timed out''))"

definition adminResult :: "error option \<Rightarrow> AdminResponse" where
  "adminResult res =
     (case res of None \<Rightarrow> \<lparr>adm_Success = True, adm_Error = []\<rparr>
      | Some err \<Rightarrow> \<lparr>adm_Success = False, adm_Error = err\<rparr>)"

definition AddNode ::
  "bool \<Rightarrow> NodeID \<Rightarrow> raftProc \<Rightarrow> raftProc \<times> outgoing list \<times> AdminResponse"
where
  "AddNode inTime nodeID s =
     (if \<not> IsLeader (pr_node s) then (s, [], \<lparr>adm_Success = False, adm_Error = ''not leader''\<rparr>)
      else let (s', out, res) = AddNodeInternal inTime nodeID s in (s', out, adminResult res))"

definition RemoveNode ::
  "bool \<Rightarrow> NodeID \<Rightarrow> raftProc \<Rightarrow> raftProc \<times> outgoing list \<times> AdminResponse"
where
  "RemoveNode inTime nodeID s =
     (if \<not> IsLeader (pr_node s) then (s, [], \<lparr>adm_Success = False, adm_Error = ''not leader''\<rparr>)
      else let (s', out, res) = RemoveNodeInternal inTime nodeID s in (s', out, adminResult res))"

subsection \<open>Handing over leadership\<close>

definition TransferLeadershipInternal :: "NodeID \<Rightarrow> raft \<Rightarrow> effect list \<times> error option" where
  "TransferLeadershipInternal target r =
     (if state r \<noteq> Leader then ([], Some ErrNotLeader)
      else if target = id_r r then ([], Some ''cannot transfer leadership to self'')
      else if target \<notin> set (peers r) then ([], Some ''target node not in cluster'')
      else case matchIndex r target of
        None \<Rightarrow> ([], Some ''target node not tracked'')
      | Some matchIdx \<Rightarrow>
          if matchIdx < commitIndex r then ([], Some ''target node is not caught up'')
          else ([GoTimeoutNow target], None))"

definition timeoutNowRequest :: "raft \<Rightarrow> TimeoutNowRequest" where
  "timeoutNowRequest r = \<lparr>tn_Term = int32 (term_r r), tn_LeaderId = id_r r\<rparr>"

definition handleTimeoutNowResponse :: "NodeID \<Rightarrow> TimeoutNowResponse \<Rightarrow> raft \<Rightarrow> raft" where
  "handleTimeoutNowResponse target resp r =
     (if term_r r < int_of32 (tnr_Term resp)
      then saveMeta (r\<lparr>term_r := int_of32 (tnr_Term resp), state := Follower, votedFor := [],
             leader := target\<rparr>)
      else r)"

definition TransferLeadership :: "NodeID \<Rightarrow> raft \<Rightarrow> effect list \<times> AdminResponse" where
  "TransferLeadership target r =
     (if \<not> IsLeader r then ([], \<lparr>adm_Success = False, adm_Error = ''not leader''\<rparr>)
      else let (fx, res) = TransferLeadershipInternal target r in (fx, adminResult res))"

subsection \<open>Stopping\<close>

definition Stop :: "string list \<Rightarrow> raftProc \<Rightarrow> raftProc" where
  "Stop order s =
     (if pr_stopped s then s
      else s\<lparr>pr_stopped := True, pr_pool := closeAll order (pr_pool s)\<rparr>)"

subsection \<open>Terms and votes are kept\<close>

lemma keeps_handleTimeoutNow [keeps]: "keeps_vote r (handleTimeoutNowResponse t resp r)"
  by (auto simp: handleTimeoutNowResponse_def keeps_vote_def)

lemma keeps_propose_send_wait:
  "proposeConfigChange ct n r = (r1, res) \<Longrightarrow> sendHeartbeats r1 = (r2, out) \<Longrightarrow>
     AppliedWait i r2 = (r3, ch) \<Longrightarrow> keeps_vote r r3"
  using keeps_proposeConfig [of r ct n] keeps_sendHeartbeats [of r1] keeps_AppliedWait [of r2 i]
  by (auto intro: keeps_vote_trans)

lemma keeps_AddNode [keeps]: "keeps_vote (pr_node s) (pr_node (fst (AddNodeInternal t n s)))"
  using keeps_proposeConfig [of "pr_node s" ConfigAddNode n]
  by (auto simp: AddNodeInternal_def Let_def split: prod.splits sum.splits
      intro: keeps_propose_send_wait)

lemma keeps_RemoveNode [keeps]: "keeps_vote (pr_node s) (pr_node (fst (RemoveNodeInternal t n s)))"
  using keeps_proposeConfig [of "pr_node s" ConfigRemoveNode n]
  by (auto simp: RemoveNodeInternal_def Let_def split: prod.splits sum.splits
      intro: keeps_propose_send_wait)

subsection \<open>What a proposal answers\<close>

text \<open>Every way a membership change can end at the leader. It is refused, and nothing
  changes, exactly when the node is not leader, or the change removes a node and there are no
  peers or the node is not one of them (so the leader itself can never be removed this way);
  otherwise the log grows by one entry of the current term that carries the change, and the
  caller gets its index, or the write error, after which the entry stays in the log.\<close>

theorem proposeConfigChange_outcome:
  "let (r', res) = proposeConfigChange ct n r;
       accepted = (state r = Leader \<and> (ct = ConfigAddNode \<or> n \<in> set (peers r)));
       e = \<lparr>Index = lastLogIndex r + 1, Term = term_r r, Data = configData ct n\<rparr>
   in if accepted
      then log_r r' = log_r r @ [e] \<and>
           res = (case saveLogErr (r\<lparr>log_r := log_r r @ [e]\<rparr>) of
                    None \<Rightarrow> Inr (lastLogIndex r + 1) | Some err \<Rightarrow> Inl err)
      else r' = r \<and> (\<exists>err. res = Inl err)"
  by (cases ct) (auto simp: proposeConfigChange_def Let_def split: option.split)

text \<open>C20: a hand-over of leadership. When the leader accepts to transfer to a target, the
  target is a member other than itself that is known to store everything committed; and when
  the target, still following this leader in the same term, processes the request and the
  leader its answer, the target is campaigning (or leads) in the next term with its own vote,
  and the old leader has stepped down to that term and points to the target.\<close>

theorem transfer_hands_over:
  fixes now :: time
  assumes "snd (TransferLeadershipInternal (id_r f) l) = None"
    and "leader f = id_r l" and "term_r f = term_r l" and "\<not> removedFromCluster f"
    and "0 \<le> term_r l" and "fits32 (term_r l + 1)"
  defines "f' \<equiv> fst (TimeoutNow now (timeoutNowRequest l) f)"
    and "resp \<equiv> fst (snd (TimeoutNow now (timeoutNowRequest l) f))"
  defines "l' \<equiv> handleTimeoutNowResponse (id_r f) resp l"
  shows "id_r f \<in> set (peers l) - {id_r l} \<and> commitIndex l \<le> mget (matchIndex l) (id_r f) \<and>
         state f' \<noteq> Follower \<and> term_r f' = term_r l + 1 \<and> votedFor f' = id_r f \<and>
         state l' = Follower \<and> term_r l' = term_r l + 1 \<and> leader l' = id_r f"
proof -
  have t: "int_of32 (int32 (term_r l)) = term_r l" "int_of32 (int32 (term_r l + 1)) = term_r l + 1"
    using assms(5,6) fits32_mono [of "term_r l" "term_r l + 1"] by (simp_all add: int_of32_int32)
  obtain s fx where s: "startElectionLocked now f = (s, fx)" by fastforce
  then have "state s \<noteq> Follower" "term_r s = term_r f + 1" "votedFor s = id_r f"
    using assms(4) by (auto simp: startElectionLocked_def becomeLeaderLocked_def Let_def split: if_splits)
  then have f': "f' = s" "resp = \<lparr>tnr_Term = int32 (term_r l + 1), tnr_Success = True\<rparr>"
    "state f' \<noteq> Follower" "term_r f' = term_r l + 1" "votedFor f' = id_r f"
    using assms(2,3) s t by (auto simp: f'_def resp_def TimeoutNow_def timeoutNowRequest_def Let_def)
  have "id_r f \<in> set (peers l) - {id_r l} \<and> commitIndex l \<le> mget (matchIndex l) (id_r f)"
    using assms(1) by (auto simp: TransferLeadershipInternal_def mget_def split: if_splits option.splits)
  with f' t show ?thesis by (simp add: l'_def handleTimeoutNowResponse_def)
qed

theorem transfer_hands_over_witness:
  "let l = leader4\<lparr>matchIndex := [''n2'' \<mapsto> 5], commitIndex := 5\<rparr>;
       f = follower4\<lparr>leader := ''n1''\<rparr>;
       l' = handleTimeoutNowResponse ''n2'' (fst (snd (TimeoutNow 8 (timeoutNowRequest l) f))) l
   in state l' = Follower \<and> term_r l' = 3 \<and> leader l' = ''n2''"
proof -
  let ?l = "leader4\<lparr>matchIndex := [''n2'' \<mapsto> 5], commitIndex := 5\<rparr>" and ?f = "follower4\<lparr>leader := ''n1''\<rparr>"
  have i: "id_r ?f = ''n2''" "term_r ?l = 2"
    by (simp_all add: follower4_def leader4_def node4_def newRaft_def)
  have t: "snd (TransferLeadershipInternal (id_r ?f) ?l) = None"
    by (simp add: TransferLeadershipInternal_def follower4_def leader4_def node4_def newRaft_def)
  have h: "leader ?f = id_r ?l" "term_r ?f = term_r ?l" "\<not> removedFromCluster ?f" "0 \<le> term_r ?l"
    "fits32 (term_r ?l + 1)"
    by (simp_all add: follower4_def leader4_def node4_def newRaft_def fits32_def)
  from transfer_hands_over [OF t h, of 8] show ?thesis unfolding Let_def i by simp
qed

end
