(* ===== verification/Raft_Node.thy ===== *)
theory Raft_Node
  imports Raft_Admin
begin

section \<open>The node as a state machine\<close>

text \<open>
  Every critical section of the node as one event, and the step function that runs it. Any
  interleaving of the node's goroutines and of incoming calls is a list of events. Two
  contracts hold along every such list: terms and votes are kept (locale \<open>vote_keeper\<close>), and
  the well-formedness of the node's state (locale \<open>kept_invariant\<close>) as long as incoming
  requests are ones a correct leader sends.
\<close>

datatype event =
    Tick time nat time
  | OnRequestVote time RequestVoteRequest
  | OnVoteResponse RequestVoteResponse
  | OnAppendEntries time AppendEntriesRequest
  | OnAppendResponse NodeID int "pbLogEntry list" AppendEntriesResponse
  | OnInstallSnapshot time InstallSnapshotRequest
  | OnTimeoutNow time TimeoutNowRequest
  | OnTimeoutNowResponse NodeID TimeoutNowResponse
  | DoPropose bytes
  | DoProposeConfig ConfigChangeType NodeID
  | DoHeartbeats
  | DoAppliedWait int
  | DoApplyBegin time
  | DoApplySend LogEntry
  | DoApplyEnd time "int \<Rightarrow> error + bytes"
  | DoForceSnapshot time "error + bytes"
  | DoSnapshotToSend
  | DoSnapshotSent NodeID Snapshot
  | DoAcquirePermit NodeID
  | DoReleasePermit NodeID
  | DoSetSnapshotter
  | DoSetSnapshotRestorer

fun node_step :: "event \<Rightarrow> raft \<Rightarrow> raft" where
  "node_step (Tick now rnd timeout) r = snd (fst (electionTick now rnd (timeout, r)))"
| "node_step (OnRequestVote now req) r = fst (RequestVote now req r)"
| "node_step (OnVoteResponse resp) r = fst (handleVoteResponse resp r)"
| "node_step (OnAppendEntries now req) r = fst (AppendEntries now req r)"
| "node_step (OnAppendResponse p i es resp) r = fst (handleAppendResponse p i es resp r)"
| "node_step (OnInstallSnapshot now req) r = fst (InstallSnapshot now req r)"
| "node_step (OnTimeoutNow now req) r = fst (TimeoutNow now req r)"
| "node_step (OnTimeoutNowResponse p resp) r = handleTimeoutNowResponse p resp r"
| "node_step (DoPropose b) r = fst (Propose b r)"
| "node_step (DoProposeConfig ct n) r = fst (proposeConfigChange ct n r)"
| "node_step DoHeartbeats r = fst (sendHeartbeats r)"
| "node_step (DoAppliedWait i) r = fst (AppliedWait i r)"
| "node_step (DoApplyBegin now) r = fst (applyBegin now r)"
| "node_step (DoApplySend e) r = applySend e r"
| "node_step (DoApplyEnd now sn) r = applyEnd now sn r"
| "node_step (DoForceSnapshot now res) r = ForceSnapshot now res r"
| "node_step DoSnapshotToSend r = fst (snapshotToSend r)"
| "node_step (DoSnapshotSent p s) r = snapshotSent p s r"
| "node_step (DoAcquirePermit p) r = fst (acquirePermit p r)"
| "node_step (DoReleasePermit p) r = releasePermit p r"
| "node_step DoSetSnapshotter r = SetSnapshotter r"
| "node_step DoSetSnapshotRestorer r = SetSnapshotRestorer r"

subsection \<open>Terms and votes\<close>

lemma keeps_callbacks [keeps]:
  "keeps_vote r (SetSnapshotter r)" "keeps_vote r (SetSnapshotRestorer r)" "keeps_vote r (ForceSnapshot u s r)"
  by (auto simp: SetSnapshotter_def SetSnapshotRestorer_def ForceSnapshot_def intro: keeps_vote_same)

interpretation raftnode: vote_keeper node_step
proof
  fix r m
  show "keeps_vote r (node_step m r)" by (cases m) (simp_all add: keeps)
qed



subsection \<open>The invariant of the node\<close>

definition wf_node :: "raft \<Rightarrow> bool" where
  "wf_node r \<longleftrightarrow> wf_log r \<and> logBaseIndex r \<le> lastApplied r \<and> lastApplied r \<le> commitIndex r \<and>
     commitIndex r \<le> lastLogIndex r \<and> wf_peers r \<and> wf_waiters r"

text \<open>What an incoming request must satisfy: an \<open>AppendEntries\<close> request has consecutive
  entries that do not contradict what this node has committed, a snapshot is not older than
  the base of the log.\<close>

fun ok_event :: "event \<Rightarrow> raft \<Rightarrow> bool" where
  "ok_event (OnAppendEntries now req) r \<longleftrightarrow> wf_request req \<and>
     (\<forall>e \<in> set (ae_Entries req). int_of32 (pe_Index e) \<le> commitIndex r \<longrightarrow>
        (\<forall>x. entryAt r (int_of32 (pe_Index e)) = Some x \<longrightarrow> Term x = int_of32 (pe_Term e)))"
| "ok_event (OnInstallSnapshot now req) r \<longleftrightarrow>
     int_of32 (is_Term req) < term_r r \<or> logBaseIndex r \<le> int_of32 (is_LastIncludedIndex req)"
| "ok_event _ r \<longleftrightarrow> True"

text \<open>The fields the invariant reads.\<close>

definition same_core :: "raft \<Rightarrow> raft \<Rightarrow> bool" where
  "same_core r r' \<longleftrightarrow> log_r r' = log_r r \<and> logBaseIndex r' = logBaseIndex r \<and>
     lastApplied r' = lastApplied r \<and> commitIndex r' = commitIndex r \<and> id_r r' = id_r r \<and>
     peers r' = peers r \<and> waiters r' = waiters r \<and> closed r' = closed r \<and> nextChan r' = nextChan r"

lemma wf_waiters_cong:
  "waiters r' = waiters r \<Longrightarrow> closed r' = closed r \<Longrightarrow> nextChan r' = nextChan r \<Longrightarrow>
     wf_waiters r' = wf_waiters r"
  by (simp add: wf_waiters_def)

lemma wf_node_core: "same_core r r' \<Longrightarrow> wf_node r \<Longrightarrow> wf_node r'"
  using wf_waiters_cong [of r' r] wf_log_cong [of r' r] lastLog_cong [of r' r]
  by (simp add: same_core_def wf_node_def wf_peers_def)

lemma core_small:
  "same_core r (saveMeta r)" "same_core r (SetSnapshotter r)" "same_core r (SetSnapshotRestorer r)"
  "same_core r (snapshotSent p s r)" "same_core r (fst (snapshotToSend r))" "same_core r (applySend e r)"
  "same_core r (handleTimeoutNowResponse p resp r)" "same_core r (releasePermit p r)"
  "same_core r (fst (acquirePermit p r))" "same_core r (fst (becomeLeaderLocked r))"
  by (auto simp: same_core_def saveMeta_def SetSnapshotter_def SetSnapshotRestorer_def snapshotSent_def
      snapshotToSend_def applySend_def handleTimeoutNowResponse_def releasePermit_def acquirePermit_def
      getPipelineSemaphore_def becomeLeaderLocked_def Let_def case_prod_beta split: option.split nat.split)

lemma core_election:
  "same_core r (fst (startElectionLocked now r))" "same_core r (fst (RequestVote now req r))"
  "same_core r (fst (handleVoteResponse resp r))" "same_core r (snd (fst (electionTick now rnd (t, r))))"
  by (auto simp: same_core_def startElectionLocked_def RequestVote_alt handleVoteResponse_def
      electionTick_def becomeLeaderLocked_def Let_def case_prod_beta)

lemma core_TimeoutNow: "same_core r (fst (TimeoutNow now req r))"
  using core_election(1) [of "adoptTerm (int_of32 (tn_Term req)) r" now] core_election(1) [of r now]
  by (auto simp: TimeoutNow_def Let_def case_prod_beta same_core_def)

lemma wf_node_append:
  assumes "wf_node r" and "wf_log r'" and "logBaseIndex r' = logBaseIndex r" and "lastApplied r' = lastApplied r"
    and "commitIndex r' = commitIndex r" and "lastLogIndex r \<le> lastLogIndex r'"
    and "id_r r' = id_r r" and "peers r' = peers r"
    and "waiters r' = waiters r" and "closed r' = closed r" and "nextChan r' = nextChan r"
  shows "wf_node r'"
  using assms wf_waiters_cong [of r' r] by (auto simp: wf_node_def wf_peers_def)

lemma wf_node_Propose:
  assumes "wf_node r"
  shows "wf_node (fst (Propose b r))"
proof (rule wf_node_append [OF assms])
  show "wf_log (fst (Propose b r))" using assms wf_Propose by (simp add: wf_node_def)
qed (auto simp: Propose_def lastLogIndex_def Let_def)

lemma wf_node_proposeConfig:
  assumes "wf_node r"
  shows "wf_node (fst (proposeConfigChange ct n r))"
proof (rule wf_node_append [OF assms])
  show "wf_log (fst (proposeConfigChange ct n r))" using assms wf_proposeConfig by (simp add: wf_node_def)
qed (auto simp: proposeConfigChange_def lastLogIndex_def Let_def split: option.split)

lemma wf_node_updateCommit: "wf_node r \<Longrightarrow> wf_node (updateCommitIndexLocked r)"
  using updateCommit_mono [of r] updateCommit_le_last [of r]
    wf_waiters_cong [of "updateCommitIndexLocked r" r] wf_log_cong [of "updateCommitIndexLocked r" r]
    lastLog_cong [of "updateCommitIndexLocked r" r]
  by (auto simp: wf_node_def wf_peers_def updateCommitIndexLocked_def)

lemma wf_node_handleAppend: "wf_node r \<Longrightarrow> wf_node (fst (handleAppendResponse p i es resp r))"
proof -
  assume wf: "wf_node r"
  have "wf_node (updateCommitIndexLocked (r\<lparr>matchIndex := m, nextIndex := n\<rparr>))" for m n
    by (rule wf_node_updateCommit, rule wf_node_core [OF _ wf]) (simp add: same_core_def)
  moreover have "wf_node (r\<lparr>nextIndex := n\<rparr>)" for n
    by (rule wf_node_core [OF _ wf]) (simp add: same_core_def)
  moreover have "wf_node (saveMeta (r\<lparr>term_r := t, state := st, votedFor := v\<rparr>))" for t st v
    by (rule wf_node_core [OF _ wf]) (simp add: same_core_def)
  ultimately show ?thesis
    using wf wf_node_updateCommit [OF wf] by (simp add: handleAppendResponse_def Let_def)
qed

lemma wf_node_AppendEntries:
  assumes "wf_node r" and "ok_event (OnAppendEntries now req) r"
  shows "wf_node (fst (AppendEntries now req r))"
proof -
  let ?r' = "fst (AppendEntries now req r)"
  from assms have h: "wf_log r" "wf_request req" "commitIndex r \<le> lastLogIndex r"
    "\<forall>e \<in> set (ae_Entries req). int_of32 (pe_Index e) \<le> commitIndex r \<longrightarrow>
        (\<forall>x. entryAt r (int_of32 (pe_Index e)) = Some x \<longrightarrow> Term x = int_of32 (pe_Term e))"
    by (simp_all add: wf_node_def)
  have "id_r ?r' = id_r r" "peers ?r' = peers r" "waiters ?r' = waiters r" "closed ?r' = closed r"
    "nextChan ?r' = nextChan r"
    by (simp_all add: AppendEntries_def followCommit_def Let_def)
  with AppendEntries_committed(2,3) [OF h, of now] wf_AppendEntries [OF h(1,2), of now] assms(1) show ?thesis
    using wf_waiters_cong [of ?r' r] by (simp add: wf_node_def AppendEntries_log wf_peers_def)
qed

lemma wf_node_InstallSnapshot:
  assumes "wf_node r" and "ok_event (OnInstallSnapshot now req) r"
  shows "wf_node (fst (InstallSnapshot now req r))"
proof (cases "int_of32 (is_Term req) < term_r r")
  case True
  with assms(1) show ?thesis by (simp add: InstallSnapshot_stale)
next
  case False
  let ?r' = "fst (InstallSnapshot now req r)" and ?i = "int_of32 (is_LastIncludedIndex req)"
  note f = InstallSnapshot_fields [of r req now]
  have b: "logBaseIndex r \<le> ?i" and t: "term_r r \<le> int_of32 (is_Term req)" using assms(2) False by simp_all
  have wf: "wf_log r" using assms(1) by (simp add: wf_node_def)
  then have wf': "wf_log ?r'"
    using compactLog_wf [of "logBaseIndex r" "log_r r" ?i] b f(1,2) [OF t] by (auto simp: wf_log_def)
  have "waiters ?r' = waiters r" "closed ?r' = closed r" "nextChan ?r' = nextChan r"
    by (simp_all add: InstallSnapshot_def Let_def)
  with wf' f(2-6) [OF t] base_le_last [OF wf'] assms(1) show ?thesis
    using wf_waiters_cong [of ?r' r] by (simp add: wf_node_def wf_peers_def)
qed

lemma applyConfig_channels [simp]:
  "nextChan (applyConfigChangeLocked now a n r) = nextChan r"
  "nextChan (handleConfigChangeIfNeeded now e r) = nextChan r"
  by (simp_all add: applyConfigChangeLocked_def handleConfigChangeIfNeeded_def split: option.split)

lemma wf_peers_handleConfig: "wf_peers r \<Longrightarrow> wf_peers (handleConfigChangeIfNeeded now e r)"
  by (auto simp: handleConfigChangeIfNeeded_def intro: wf_peers_apply split: option.split)

lemma wf_node_applyBegin: "wf_node r \<Longrightarrow> wf_node (fst (applyBegin now r))"
proof (cases "applyBegin now r")
  case (Pair r1 oe)
  assume wf: "wf_node r"
  show ?thesis
  proof (cases oe)
    case None
    with Pair wf applyBegin_none [of now r r1] show ?thesis by simp
  next
    case (Some e)
    note f = applyBegin_frame [OF Pair [unfolded Some]]
    have r1: "r1 = handleConfigChangeIfNeeded now e (r\<lparr>lastApplied := lastApplied r + 1\<rparr>)"
      using Pair Some by (auto simp: applyBegin_def Let_def split: if_splits option.splits)
    have "wf_peers r1"
      unfolding r1 by (rule wf_peers_handleConfig) (use wf in \<open>simp add: wf_node_def wf_peers_def\<close>)
    moreover have "nextChan r1 = nextChan r" by (simp add: r1)
    ultimately show ?thesis
      using wf f wf_waiters_cong [of r1 r] wf_log_cong [of r1 r] lastLog_cong [of r1 r] Pair
      by (simp add: wf_node_def)
  qed
qed

lemma wf_node_createSnapshot: "wf_node r \<Longrightarrow> wf_node (createSnapshotLocked u s r)"
proof -
  assume wf: "wf_node r"
  let ?r' = "createSnapshotLocked u s r"
  from wf have log: "wf_log r" by (simp add: wf_node_def)
  have "nextChan ?r' = nextChan r" "logBaseIndex ?r' \<le> lastApplied r"
    using wf by (cases rule: createSnapshot_cases [of u s r]; simp add: wf_node_def)+
  with createSnapshot_log [OF log, of u s] wf show ?thesis
    using wf_waiters_cong [of ?r' r] by (simp add: wf_node_def wf_peers_def)
qed

lemma inj_map_del: "inj_on m (dom m) \<Longrightarrow> inj_on (m(i := None)) (dom (m(i := None)))"
  by (auto simp: inj_on_def)

lemma inj_map_upd:
  assumes "inj_on m (dom m)" and "\<And>j. m j \<noteq> Some c"
  shows "inj_on (m(i \<mapsto> c)) (dom (m(i \<mapsto> c)))"
proof (rule inj_onI)
  fix x y assume h: "x \<in> dom (m(i \<mapsto> c))" "y \<in> dom (m(i \<mapsto> c))" "(m(i \<mapsto> c)) x = (m(i \<mapsto> c)) y"
  show "x = y"
  proof (cases "x = i \<or> y = i")
    case True
    with h(3) assms(2) [of x] assms(2) [of y] show ?thesis by (auto split: if_splits)
  next
    case False
    with h inj_onD [OF assms(1), of x y] show ?thesis by simp
  qed
qed

lemma wf_waiters_close:
  assumes "wf_waiters r" and "waiters r i = Some c"
  shows "wf_waiters (r\<lparr>closed := insert c (closed r), waiters := (waiters r)(i := None)\<rparr>)"
proof -
  have "d \<noteq> c" if "waiters r j = Some d" "j \<noteq> i" for j d
    using that assms inj_onD [of "waiters r" "dom (waiters r)" j i] by (auto simp: wf_waiters_def)
  with assms inj_map_del [of "waiters r" i] show ?thesis by (simp add: wf_waiters_def)
qed

lemma wf_node_closeWaiter: "wf_node r \<Longrightarrow> wf_node (closeWaiter r)"
proof -
  assume wf: "wf_node r"
  then have "wf_waiters (closeWaiter r)"
    by (auto simp: closeWaiter_def wf_node_def intro: wf_waiters_close split: option.split)
  with wf wf_log_cong [of "closeWaiter r" r] lastLog_cong [of "closeWaiter r" r] show ?thesis
    by (simp add: wf_node_def wf_peers_def)
qed

lemma wf_node_applyEnd: "wf_node r \<Longrightarrow> wf_node (applyEnd u sn r)"
  by (simp add: applyEnd_def Let_def wf_node_closeWaiter wf_node_createSnapshot)

lemma wf_node_AppliedWait: "wf_node r \<Longrightarrow> wf_node (fst (AppliedWait i r))"
proof -
  assume wf: "wf_node r"
  let ?r' = "fst (AppliedWait i r)"
  have w: "wf_waiters r" using wf by (simp add: wf_node_def)
  have fresh: "waiters r j \<noteq> Some (nextChan r)" for j using w by (auto simp: wf_waiters_def)
  have "wf_waiters ?r'"
  proof (cases "i \<le> lastApplied r")
    case True
    with w show ?thesis by (auto simp: wf_waiters_def AppliedWait_def Let_def less_Suc_eq)
  next
    case False
    have "inj_on ((waiters r)(i \<mapsto> nextChan r)) (dom ((waiters r)(i \<mapsto> nextChan r)))"
      using w fresh by (intro inj_map_upd) (simp_all add: wf_waiters_def)
    moreover have "nextChan r \<notin> closed r" using w by (auto simp: wf_waiters_def)
    ultimately show ?thesis
      using False w by (auto simp: wf_waiters_def AppliedWait_def Let_def less_Suc_eq)
  qed
  moreover have "id_r ?r' = id_r r" "peers ?r' = peers r" by (simp_all add: AppliedWait_def Let_def)
  ultimately show ?thesis
    using wf wf_log_cong [of ?r' r] lastLog_cong [of ?r' r] by (simp add: wf_node_def wf_peers_def)
qed

lemma wf_node_step:
  assumes wf: "wf_node r" and ok: "ok_event m r"
  shows "wf_node (node_step m r)"
proof (cases m)
  case (OnAppendEntries now req)
  with wf_node_AppendEntries [OF wf] ok show ?thesis by simp
next
  case (OnInstallSnapshot now req)
  with wf_node_InstallSnapshot [OF wf] ok show ?thesis by simp
next
  case DoHeartbeats
  then show ?thesis using wf wf_node_updateCommit [OF wf] by (simp add: sendHeartbeats_def Let_def)
qed (use wf in \<open>simp_all add: wf_node_core [OF core_small(2)] wf_node_core [OF core_small(3)]
  wf_node_core [OF core_small(4)] wf_node_core [OF core_small(5)] wf_node_core [OF core_small(6)]
  wf_node_core [OF core_small(7)] wf_node_core [OF core_small(8)] wf_node_core [OF core_small(9)]
  wf_node_core [OF core_election(2)] wf_node_core [OF core_election(3)] wf_node_core [OF core_election(4)]
  wf_node_core [OF core_TimeoutNow] wf_node_Propose wf_node_proposeConfig wf_node_handleAppend
  wf_node_applyBegin wf_node_applyEnd wf_node_AppliedWait ForceSnapshot_def wf_node_createSnapshot\<close>)

interpretation nodeinv: kept_invariant node_step wf_node ok_event
  by unfold_locales (rule wf_node_step)

text \<open>C9: the state of a node stays well-formed along every sequence of events in which the
  incoming requests are ones a correct leader sends: the log is non-empty and contiguous, the
  base, the last applied index, the commit index and the last index are ordered, the peers are
  distinct and do not contain the node, and every waiter has an open channel of its own.\<close>

theorem node_invariant:
  assumes "wf_node r" and "nodeinv.all_ok evs r"
  shows "wf_node (nodeinv.run evs r)"
  using assms by (rule nodeinv.run_inv)

lemma wf_node_node4: "wf_node (node4\<lparr>commitIndex := 4, lastApplied := 4\<rparr>)"
proof -
  have "wf_log (node4\<lparr>commitIndex := 4, lastApplied := 4\<rparr>)" using wf_node4 by (simp add: wf_log_def)
  then show ?thesis
    by (simp add: wf_node_def wf_peers_def wf_waiters_def lastLogIndex_def node4_def newRaft_def)
qed

theorem node_invariant_witness:
  "let r = node4\<lparr>commitIndex := 4, lastApplied := 4\<rparr>;
       evs = [Tick 9 0 5, OnVoteResponse \<lparr>rvr_Term = 2, rvr_VoteGranted = True\<rparr>, DoPropose ''x'', DoHeartbeats]
   in wf_node (nodeinv.run evs r)"
  unfolding Let_def by (rule node_invariant [OF wf_node_node4]) simp

end
