(* ===== verification/Raft_System.thy ===== *)
theory Raft_System
  imports Raft_Node
begin

section \<open>Elections in a cluster\<close>

text \<open>
  A cluster of nodes with a fixed membership, the vote calls that are under way and the
  answers that are on their way back. Each step runs one of the handlers of the model at one
  node; calls and answers may be delayed, reordered and lost. \<open>grants\<close> and \<open>counted\<close> are
  history variables: the votes given so far, and whose votes a candidate has counted.
\<close>

record net =
  nodes :: "NodeID \<Rightarrow> raft"
  calls :: "(NodeID \<times> NodeID \<times> int) set"
  answers :: "(NodeID \<times> NodeID \<times> int \<times> RequestVoteResponse) set"
  grants :: "(int \<times> NodeID \<times> NodeID) set"
  counted :: "NodeID \<Rightarrow> NodeID set"

text \<open>Node \<open>i\<close> moves to \<open>r'\<close> and starts the goroutines \<open>fx\<close>.\<close>

definition launch :: "NodeID \<Rightarrow> raft \<Rightarrow> effect list \<Rightarrow> net \<Rightarrow> net" where
  "launch i r' fx s =
     (let camp = term_r (nodes s i) < term_r r' \<and> votedFor r' = i in
      s\<lparr>nodes := (nodes s)(i := r'),
        calls := calls s \<union> {(j, p, t). j = i \<and> GoBroadcastRequestVote t \<in> set fx \<and>
                                        p \<in> set (broadcastRequestVote r')},
        grants := (if camp then insert (term_r r', i, i) (grants s) else grants s),
        counted := (if camp then (counted s)(i := {i}) else counted s)\<rparr>)"

definition vote_event :: "event \<Rightarrow> bool" where
  "vote_event ev \<longleftrightarrow> (case ev of Tick _ _ _ \<Rightarrow> True | OnRequestVote _ _ \<Rightarrow> True | OnVoteResponse _ \<Rightarrow> True
     | OnTimeoutNow _ _ \<Rightarrow> True | _ \<Rightarrow> False)"

text \<open>The steps. With \<open>fresh\<close> a granted vote is only delivered while the candidate is still in
  the term it asked for, which the code does not check. Terms fit the 32 bits of the messages,
  and membership is fixed.\<close>

inductive net_step :: "bool \<Rightarrow> NodeID set \<Rightarrow> net \<Rightarrow> net \<Rightarrow> bool" for fresh U where
  tick: "net_step fresh U s (launch i r' fx s)"
    if "i \<in> U" "electionTick now rnd (timeout, nodes s i) = ((timeout', r'), fx)" "fits32 (term_r r')"
| handover: "net_step fresh U s (launch i r' fx s)"
    if "i \<in> U" "TimeoutNow now req (nodes s i) = (r', resp, fx)" "fits32 (term_r r')"
| serve: "net_step fresh U s
     (s\<lparr>nodes := (nodes s)(p := r'), calls := calls s - {(i, p, t)},
        answers := insert (i, p, t, resp) (answers s),
        grants := (if rvr_VoteGranted resp then insert (t, p, i) (grants s) else grants s)\<rparr>)"
    if "(i, p, t) \<in> calls s" "rv_CandidateId req = i" "rv_Term req = int32 t"
       "RequestVote now req (nodes s p) = (r', resp)"
| deliver: "net_step fresh U s
     (s\<lparr>nodes := (nodes s)(i := r'), answers := answers s - {(i, p, t, resp)},
        counted := (if rvr_VoteGranted resp \<and> state (nodes s i) = Candidate \<and> term_r r' = term_r (nodes s i)
                    then (counted s)(i := insert p (counted s i)) else counted s)\<rparr>)"
    if "(i, p, t, resp) \<in> answers s" "handleVoteResponse resp (nodes s i) = (r', fx)"
       "fresh \<and> rvr_VoteGranted resp \<longrightarrow> t = term_r (nodes s i)"
| lose_call: "net_step fresh U s (s\<lparr>calls := calls s - {c}\<rparr>)"
| lose_answer: "net_step fresh U s (s\<lparr>answers := answers s - {a}\<rparr>)"
| local: "net_step fresh U s (s\<lparr>nodes := (nodes s)(i := r')\<rparr>)"
    if "i \<in> U" "\<not> vote_event ev" "r' = node_step ev (nodes s i)" "peers r' = peers (nodes s i)"
       "removedFromCluster r' = removedFromCluster (nodes s i)"

inductive_cases net_stepE: "net_step fresh U s s'"

text \<open>A cluster that starts: every node is a follower that knows the others, nothing is under
  way, and the votes recorded on disk are the only ones.\<close>

definition net_init :: "NodeID set \<Rightarrow> net \<Rightarrow> bool" where
  "net_init U s \<longleftrightarrow> finite U \<and> [] \<notin> U \<and>
     (\<forall>i \<in> U. id_r (nodes s i) = i \<and> members (nodes s i) = U \<and> wf_peers (nodes s i) \<and>
        \<not> removedFromCluster (nodes s i) \<and> state (nodes s i) = Follower) \<and>
     calls s = {} \<and> answers s = {} \<and>
     grants s = {(t, v, c). v \<in> U \<and> t = term_r (nodes s v) \<and> c = votedFor (nodes s v) \<and> c \<noteq> []}"

inductive reachable :: "bool \<Rightarrow> NodeID set \<Rightarrow> net \<Rightarrow> bool" for fresh U where
  start: "net_init U s \<Longrightarrow> reachable fresh U s"
| step: "reachable fresh U s \<Longrightarrow> net_step fresh U s s' \<Longrightarrow> reachable fresh U s'"

subsection \<open>Roles change only in elections\<close>

definition keeps_role :: "raft \<Rightarrow> raft \<Rightarrow> bool" where
  "keeps_role r r' \<longleftrightarrow> (state r' \<noteq> Follower \<longrightarrow>
     state r' = state r \<and> term_r r' = term_r r \<and> votes r' = votes r)"

lemma keeps_role_same:
  "state r' = state r \<Longrightarrow> term_r r' = term_r r \<Longrightarrow> votes r' = votes r \<Longrightarrow> keeps_role r r'"
  by (simp add: keeps_role_def)

lemma keeps_role_follower: "state r' = Follower \<Longrightarrow> keeps_role r r'"
  by (simp add: keeps_role_def)

lemma role_RequestVote: "keeps_role r (fst (RequestVote now req r))"
  by (auto simp: RequestVote_alt Let_def keeps_role_def adoptTerm_def)

lemma role_AppendEntries: "keeps_role r (fst (AppendEntries now req r))"
  by (auto simp: AppendEntries_def Let_def keeps_role_def)

lemma role_InstallSnapshot: "keeps_role r (fst (InstallSnapshot now req r))"
  by (auto simp: InstallSnapshot_def Let_def keeps_role_def)

lemma role_handleAppend: "keeps_role r (fst (handleAppendResponse p i es resp r))"
  by (auto simp: handleAppendResponse_def Let_def keeps_role_def)

lemma role_config: "keeps_role r (applyConfigChangeLocked now a n r)"
  by (simp add: applyConfigChangeLocked_def keeps_role_def)

lemma role_handleConfig: "keeps_role r (handleConfigChangeIfNeeded now e r)"
  by (auto simp: handleConfigChangeIfNeeded_def intro: role_config keeps_role_same split: option.split)

lemma role_applyBegin: "keeps_role r (fst (applyBegin now r))"
proof -
  have "keeps_role r (handleConfigChangeIfNeeded now e (r\<lparr>lastApplied := n\<rparr>))" for e n
    using role_handleConfig [of "r\<lparr>lastApplied := n\<rparr>" now e] by (simp add: keeps_role_def)
  then show ?thesis
    by (auto simp: applyBegin_def Let_def intro: keeps_role_same split: option.split)
qed

lemma votes_createSnapshot [simp, frame_simps]: "votes (createSnapshotLocked u s r) = votes r"
  by (cases rule: createSnapshot_cases [of u s r]) simp_all

lemma votes_closeWaiter [simp, frame_simps]: "votes (closeWaiter r) = votes r"
  by (simp add: closeWaiter_def split: option.split)

lemma role_applyEnd: "keeps_role r (applyEnd u sn r)"
  by (rule keeps_role_same) (simp_all add: applyEnd_def Let_def)

lemma role_small:
  "keeps_role r (SetSnapshotter r)" "keeps_role r (SetSnapshotRestorer r)"
  "keeps_role r (snapshotSent p s r)" "keeps_role r (fst (snapshotToSend r))" "keeps_role r (applySend e r)"
  "keeps_role r (handleTimeoutNowResponse p resp r)" "keeps_role r (releasePermit p r)"
  "keeps_role r (fst (acquirePermit p r))" "keeps_role r (fst (AppliedWait i r))"
  by (auto simp: keeps_role_def SetSnapshotter_def SetSnapshotRestorer_def snapshotSent_def
      snapshotToSend_def applySend_def handleTimeoutNowResponse_def releasePermit_def acquirePermit_def
      getPipelineSemaphore_def AppliedWait_def Let_def case_prod_beta split: option.split nat.split)

lemma role_propose:
  "keeps_role r (fst (Propose b r))" "keeps_role r (fst (proposeConfigChange ct n r))"
  "keeps_role r (fst (sendHeartbeats r))" "keeps_role r (ForceSnapshot u s r)"
  by (auto simp: Propose_def proposeConfigChange_def sendHeartbeats_def ForceSnapshot_def Let_def
      intro: keeps_role_same split: option.split)

lemmas roles = role_AppendEntries role_InstallSnapshot role_handleAppend role_applyBegin role_applyEnd
  role_small role_propose

lemma role_local: "\<not> vote_event ev \<Longrightarrow> keeps_role r (node_step ev r)"
  by (cases ev) (simp_all add: vote_event_def roles)

subsection \<open>The invariant of elections\<close>

definition member_inv :: "NodeID set \<Rightarrow> net \<Rightarrow> bool" where
  "member_inv U s \<longleftrightarrow> finite U \<and> [] \<notin> U \<and>
     (\<forall>i \<in> U. id_r (nodes s i) = i \<and> members (nodes s i) = U \<and> wf_peers (nodes s i) \<and>
        \<not> removedFromCluster (nodes s i))"

text \<open>One value per key.\<close>

definition single :: "('k \<times> 'v) set \<Rightarrow> bool" where
  "single G \<longleftrightarrow> (\<forall>k v v'. (k, v) \<in> G \<longrightarrow> (k, v') \<in> G \<longrightarrow> v = v')"

lemma single_subset: "single G \<Longrightarrow> H \<subseteq> G \<Longrightarrow> single H"
  unfolding single_def by blast

lemma single_insert: "single G \<Longrightarrow> (\<And>v'. (k, v') \<in> G \<Longrightarrow> v' = v) \<Longrightarrow> single (insert (k, v) G)"
  unfolding single_def by blast

lemma singleD: "single G \<Longrightarrow> (k, v) \<in> G \<Longrightarrow> (k, v') \<in> G \<Longrightarrow> v = v'"
  unfolding single_def by blast

definition votes_of :: "(int \<times> NodeID \<times> NodeID) set \<Rightarrow> ((int \<times> NodeID) \<times> NodeID) set" where
  "votes_of G = {((t, v), c) | t v c. (t, v, c) \<in> G}"

definition answers_of ::
  "(NodeID \<times> NodeID \<times> int \<times> RequestVoteResponse) set \<Rightarrow> ((NodeID \<times> NodeID \<times> int) \<times> RequestVoteResponse) set"
where
  "answers_of A = {((i, p, t), resp) | i p t resp. (i, p, t, resp) \<in> A}"

lemma votes_of_simps [simp]:
  "((t, v), c) \<in> votes_of G \<longleftrightarrow> (t, v, c) \<in> G" "votes_of (insert (t, v, c) G) = insert ((t, v), c) (votes_of G)"
  by (auto simp: votes_of_def)

lemma answers_of_simps [simp]:
  "((i, p, t), resp) \<in> answers_of A \<longleftrightarrow> (i, p, t, resp) \<in> A" "answers_of {} = {}"
  "answers_of (insert (i, p, t, resp) A) = insert ((i, p, t), resp) (answers_of A)"
  by (auto simp: answers_of_def)

lemma answers_of_mono: "A \<subseteq> B \<Longrightarrow> answers_of A \<subseteq> answers_of B"
  by (auto simp: answers_of_def)

text \<open>A vote given is remembered as long as its term lasts, so a node votes once per term.\<close>

definition grant_inv :: "NodeID set \<Rightarrow> net \<Rightarrow> bool" where
  "grant_inv U s \<longleftrightarrow>
     (\<forall>t v c. (t, v, c) \<in> grants s \<longrightarrow> v \<in> U \<and> c \<noteq> [] \<and> t \<le> term_r (nodes s v) \<and>
        (t = term_r (nodes s v) \<longrightarrow> votedFor (nodes s v) = c)) \<and>
     single (votes_of (grants s))"

definition ballots :: "net \<Rightarrow> (NodeID \<times> NodeID \<times> int) set" where
  "ballots s = calls s \<union> {(i, p, t). \<exists>resp. (i, p, t, resp) \<in> answers s}"

text \<open>Each vote is asked for once, and not asked for or answered any more once it is counted.\<close>

definition ballot_inv :: "NodeID set \<Rightarrow> net \<Rightarrow> bool" where
  "ballot_inv U s \<longleftrightarrow>
     (\<forall>i p t. (i, p, t) \<in> ballots s \<longrightarrow> i \<in> U \<and> p \<in> U \<and> p \<noteq> i \<and> fits32 t \<and> t \<le> term_r (nodes s i) \<and>
        (t = term_r (nodes s i) \<and> state (nodes s i) = Candidate \<longrightarrow> p \<notin> counted s i)) \<and>
     (\<forall>i p t resp. (i, p, t, resp) \<in> answers s \<longrightarrow> (i, p, t) \<notin> calls s \<and>
        (rvr_VoteGranted resp \<longrightarrow> (t, p, i) \<in> grants s)) \<and>
     single (answers_of (answers s))"

definition elected :: "NodeID set \<Rightarrow> net \<Rightarrow> NodeID \<Rightarrow> int \<Rightarrow> bool" where
  "elected U s i t \<longleftrightarrow> (\<exists>Q \<subseteq> U. card U < 2 * card Q \<and> (\<forall>v \<in> Q. (t, v, i) \<in> grants s))"

definition role_inv :: "NodeID set \<Rightarrow> net \<Rightarrow> bool" where
  "role_inv U s \<longleftrightarrow> (\<forall>i \<in> U.
     (state (nodes s i) = Candidate \<longrightarrow>
        votes (nodes s i) = int (card (counted s i)) \<and>
        counted s i \<subseteq> {v \<in> U. (term_r (nodes s i), v, i) \<in> grants s}) \<and>
     (state (nodes s i) = Leader \<longrightarrow> elected U s i (term_r (nodes s i))))"

definition net_inv :: "NodeID set \<Rightarrow> net \<Rightarrow> bool" where
  "net_inv U s \<longleftrightarrow> member_inv U s \<and> grant_inv U s \<and> ballot_inv U s \<and> role_inv U s"

lemma ballotD:
  "net_inv U s \<Longrightarrow> (i, p, t) \<in> ballots s \<Longrightarrow> i \<in> U \<and> p \<in> U \<and> p \<noteq> i \<and> fits32 t \<and> t \<le> term_r (nodes s i) \<and>
     (t = term_r (nodes s i) \<and> state (nodes s i) = Candidate \<longrightarrow> p \<notin> counted s i)"
  unfolding net_inv_def ballot_inv_def by blast

lemma answerD:
  "net_inv U s \<Longrightarrow> (i, p, t, resp) \<in> answers s \<Longrightarrow>
     (i, p, t) \<notin> calls s \<and> (rvr_VoteGranted resp \<longrightarrow> (t, p, i) \<in> grants s)"
  unfolding net_inv_def ballot_inv_def by blast

lemma answers_single: "net_inv U s \<Longrightarrow> single (answers_of (answers s))"
  unfolding net_inv_def ballot_inv_def by blast

lemma ballotI:
  assumes "\<And>i p t. (i, p, t) \<in> ballots s \<Longrightarrow> i \<in> U \<and> p \<in> U \<and> p \<noteq> i \<and> fits32 t \<and>
      t \<le> term_r (nodes s i) \<and> (t = term_r (nodes s i) \<and> state (nodes s i) = Candidate \<longrightarrow> p \<notin> counted s i)"
    and "\<And>i p t resp. (i, p, t, resp) \<in> answers s \<Longrightarrow>
      (i, p, t) \<notin> calls s \<and> (rvr_VoteGranted resp \<longrightarrow> (t, p, i) \<in> grants s)"
    and "single (answers_of (answers s))"
  shows "ballot_inv U s"
  using assms unfolding ballot_inv_def by blast

lemma inv_init: "net_init U s \<Longrightarrow> net_inv U s"
  by (auto simp: net_init_def net_inv_def member_inv_def grant_inv_def ballot_inv_def role_inv_def
      ballots_def single_def votes_of_def)

text \<open>A node moves without an election.\<close>

definition moves :: "raft \<Rightarrow> raft \<Rightarrow> bool" where
  "moves r r' \<longleftrightarrow> keeps_vote r r' \<and> keeps_role r r' \<and> peers r' = peers r \<and> \<not> removedFromCluster r'"

lemma member_move:
  assumes "member_inv U s" and "nodes s' = (nodes s)(i := r')" and "id_r r' = id_r (nodes s i)"
    and "peers r' = peers (nodes s i)" and "\<not> removedFromCluster r'"
  shows "member_inv U s'"
proof -
  have "members r' = members (nodes s i)" "wf_peers r' = wf_peers (nodes s i)"
    using assms(3,4) by (simp_all add: members_def wf_peers_def)
  with assms show ?thesis unfolding member_inv_def by simp
qed

lemma grant_keeps:
  assumes "grant_inv U s" and "keeps_vote (nodes s i) r'" and "\<not> removedFromCluster r'"
  shows "grant_inv U (s\<lparr>nodes := (nodes s)(i := r')\<rparr>)"
  unfolding grant_inv_def
proof (intro conjI allI impI)
  fix t v c assume g: "(t, v, c) \<in> grants (s\<lparr>nodes := (nodes s)(i := r')\<rparr>)"
  with assms(1) have h: "v \<in> U" "c \<noteq> []" "t \<le> term_r (nodes s v)"
    "t = term_r (nodes s v) \<Longrightarrow> votedFor (nodes s v) = c" by (auto simp: grant_inv_def)
  then show "v \<in> U" "c \<noteq> []" by simp_all
  show "t \<le> term_r (nodes (s\<lparr>nodes := (nodes s)(i := r')\<rparr>) v)"
    using h(3) assms(2) by (auto simp: keeps_vote_def)
  assume "t = term_r (nodes (s\<lparr>nodes := (nodes s)(i := r')\<rparr>) v)"
  then show "votedFor (nodes (s\<lparr>nodes := (nodes s)(i := r')\<rparr>) v) = c"
    using h(2,3,4) assms(2,3) by (cases "v = i") (auto simp: keeps_vote_def)
qed (use assms(1) in \<open>simp add: grant_inv_def\<close>)

lemma grant_insert:
  assumes "grant_inv U s" and "p \<in> U" and "c \<noteq> []" and "term_r (nodes s p) = t" and "votedFor (nodes s p) = c"
  shows "grant_inv U (s\<lparr>grants := insert (t, p, c) (grants s)\<rparr>)"
proof -
  have "single (votes_of (insert (t, p, c) (grants s)))"
    using assms(1,4,5) by (auto simp: grant_inv_def intro!: single_insert)
  with assms show ?thesis by (auto simp: grant_inv_def)
qed

lemma inv_move:
  assumes inv: "net_inv U s" and i: "i \<in> U" and m: "moves (nodes s i) r'"
  defines "s' \<equiv> s\<lparr>nodes := (nodes s)(i := r')\<rparr>"
  shows "net_inv U s'"
proof -
  have r: "id_r r' = id_r (nodes s i)" "term_r (nodes s i) \<le> term_r r'" "\<not> removedFromCluster r'"
    "peers r' = peers (nodes s i)"
    "state r' \<noteq> Follower \<Longrightarrow> state r' = state (nodes s i) \<and> term_r r' = term_r (nodes s i) \<and>
       votes r' = votes (nodes s i)"
    using m by (auto simp: moves_def keeps_vote_def keeps_role_def)
  have "member_inv U s'"
    using inv r(1,3,4) member_move [of U s s' i r'] by (simp add: net_inv_def s'_def)
  moreover have "grant_inv U s'"
    using inv m grant_keeps [of U s i r'] by (simp add: net_inv_def moves_def s'_def)
  moreover have "ballot_inv U s'"
  proof -
    have b: "ballots s' = ballots s" by (simp add: ballots_def s'_def)
    have "t \<le> term_r r' \<and> (t = term_r r' \<and> state r' = Candidate \<longrightarrow> p \<notin> counted s i)"
      if "(i, p, t) \<in> ballots s" for p t
    proof -
      have "t \<le> term_r (nodes s i)" "t = term_r (nodes s i) \<and> state (nodes s i) = Candidate \<longrightarrow> p \<notin> counted s i"
        using inv that by (auto simp: net_inv_def ballot_inv_def)
      with r(2,5) show ?thesis by auto
    qed
    with inv b show ?thesis by (auto simp: net_inv_def ballot_inv_def s'_def)
  qed
  moreover have "role_inv U s'"
    using inv r(5) by (auto simp: net_inv_def role_inv_def elected_def s'_def)
  ultimately show ?thesis by (simp add: net_inv_def)
qed

lemma elected_mono: "elected U s i t \<Longrightarrow> grants s \<subseteq> grants s' \<Longrightarrow> elected U s' i t"
  unfolding elected_def by blast

text \<open>More grants do not hurt the roles.\<close>

lemma role_mono:
  assumes "role_inv U s" and "nodes s' = nodes s" and "counted s' = counted s" and "grants s \<subseteq> grants s'"
  shows "role_inv U s'"
  using assms elected_mono [OF _ assms(4)] unfolding role_inv_def by fastforce

text \<open>An answer replaces a call.\<close>

lemma grant_cong: "nodes s' = nodes s \<Longrightarrow> grants s' = grants s \<Longrightarrow> grant_inv U s' = grant_inv U s"
  by (simp add: grant_inv_def)

lemma inv_answer:
  assumes inv: "net_inv U s" and c: "(i, p, t) \<in> calls s"
    and g: "rvr_VoteGranted resp \<Longrightarrow> term_r (nodes s p) = t \<and> votedFor (nodes s p) = i"
  defines "s' \<equiv> s\<lparr>calls := calls s - {(i, p, t)}, answers := insert (i, p, t, resp) (answers s),
        grants := (if rvr_VoteGranted resp then insert (t, p, i) (grants s) else grants s)\<rparr>"
  shows "net_inv U s'"
proof -
  have ip: "i \<in> U" "p \<in> U" "i \<noteq> []"
    using inv c by (auto simp: net_inv_def ballot_inv_def ballots_def member_inv_def)
  have "member_inv U s'" using inv by (simp add: net_inv_def member_inv_def s'_def)
  moreover have "grant_inv U s'"
  proof (cases "rvr_VoteGranted resp")
    case True
    with g grant_insert [of U s p i t] ip inv have "grant_inv U (s\<lparr>grants := insert (t, p, i) (grants s)\<rparr>)"
      by (simp add: net_inv_def)
    with True show ?thesis
      using grant_cong [of s' "s\<lparr>grants := insert (t, p, i) (grants s)\<rparr>" U] by (simp add: s'_def)
  next
    case False
    with inv show ?thesis using grant_cong [of s' s U] by (simp add: s'_def net_inv_def)
  qed
  moreover have "ballot_inv U s'"
  proof (rule ballotI)
    have "ballots s' = ballots s" using c by (auto simp: ballots_def s'_def)
    then show "j \<in> U \<and> q \<in> U \<and> q \<noteq> j \<and> fits32 u \<and> u \<le> term_r (nodes s' j) \<and>
        (u = term_r (nodes s' j) \<and> state (nodes s' j) = Candidate \<longrightarrow> q \<notin> counted s' j)"
      if "(j, q, u) \<in> ballots s'" for j q u
      using ballotD [OF inv, of j q u] that by (simp add: s'_def)
    show "(j, q, u) \<notin> calls s' \<and> (rvr_VoteGranted a \<longrightarrow> (u, q, j) \<in> grants s')"
      if "(j, q, u, a) \<in> answers s'" for j q u a
      using that answerD [OF inv, of j q u a] by (auto simp: s'_def)
    show "single (answers_of (answers s'))"
      using answers_single [OF inv] answerD [OF inv, of i p t] c
        single_insert [of "answers_of (answers s)" "(i, p, t)" resp] by (simp add: s'_def) blast
  qed
  moreover have "role_inv U s'"
    using inv by (auto simp: net_inv_def s'_def intro: role_mono)
  ultimately show ?thesis by (simp add: net_inv_def)
qed

text \<open>Calls and answers get lost.\<close>

lemma inv_fewer:
  assumes inv: "net_inv U s" and sub: "C \<subseteq> calls s" "A \<subseteq> answers s"
  defines "s' \<equiv> s\<lparr>calls := C, answers := A\<rparr>"
  shows "net_inv U s'"
proof -
  have b: "(i, p, t) \<in> ballots s" if "(i, p, t) \<in> ballots s'" for i p t
    using that sub by (auto simp: ballots_def s'_def)
  have "ballot_inv U s'"
  proof (rule ballotI)
    show "i \<in> U \<and> p \<in> U \<and> p \<noteq> i \<and> fits32 t \<and> t \<le> term_r (nodes s' i) \<and>
        (t = term_r (nodes s' i) \<and> state (nodes s' i) = Candidate \<longrightarrow> p \<notin> counted s' i)"
      if "(i, p, t) \<in> ballots s'" for i p t
      using ballotD [OF inv b [OF that]] by (simp add: s'_def)
    show "(i, p, t) \<notin> calls s' \<and> (rvr_VoteGranted a \<longrightarrow> (t, p, i) \<in> grants s')"
      if "(i, p, t, a) \<in> answers s'" for i p t a
      using answerD [OF inv, of i p t a] that sub by (auto simp: s'_def)
    show "single (answers_of (answers s'))"
      using single_subset [OF answers_single [OF inv] answers_of_mono [OF sub(2)]] by (simp add: s'_def)
  qed
  moreover have "member_inv U s'" "grant_inv U s'" "role_inv U s'"
    using inv by (simp_all add: net_inv_def member_inv_def grant_inv_def role_inv_def elected_def s'_def)
  ultimately show ?thesis by (simp add: net_inv_def)
qed

text \<open>A node campaigns.\<close>

lemma startElection_cases:
  assumes "startElectionLocked now r = (r', fx)" and "\<not> removedFromCluster r"
  shows "id_r r' = id_r r" "peers r' = peers r" "\<not> removedFromCluster r'" "term_r r' = term_r r + 1"
    "votedFor r' = id_r r"
    "state r' = Candidate \<and> votes r' = 1 \<and> fx = [GoBroadcastRequestVote (term_r r')] \<or>
     state r' = Leader \<and> peers r = [] \<and> fx = [GoHeartbeatLoop]"
proof -
  let ?m = "majority (saveMeta (r\<lparr>state := Candidate, term_r := term_r r + 1, votedFor := id_r r\<rparr>)
        \<lparr>electionReset := now, votes := 1\<rparr>)"
  have "?m = majority r" by (rule majority_cong) simp
  with assms majority_le_one [of r] show "id_r r' = id_r r" "peers r' = peers r" "\<not> removedFromCluster r'"
    "term_r r' = term_r r + 1" "votedFor r' = id_r r"
    "state r' = Candidate \<and> votes r' = 1 \<and> fx = [GoBroadcastRequestVote (term_r r')] \<or>
     state r' = Leader \<and> peers r = [] \<and> fx = [GoHeartbeatLoop]"
    by (auto simp: startElectionLocked_def becomeLeaderLocked_def Let_def split: if_splits)
qed

text \<open>What a step of a timer or of \<open>TimeoutNow\<close> does: nothing, or a campaign in a new term.\<close>

definition campaigns :: "raft \<Rightarrow> raft \<Rightarrow> effect list \<Rightarrow> bool" where
  "campaigns r r' fx \<longleftrightarrow> id_r r' = id_r r \<and> peers r' = peers r \<and> \<not> removedFromCluster r' \<and>
     term_r r < term_r r' \<and> votedFor r' = id_r r \<and>
     (state r' = Candidate \<and> votes r' = 1 \<and> fx = [GoBroadcastRequestVote (term_r r')] \<or>
      state r' = Leader \<and> peers r = [] \<and> fx = [GoHeartbeatLoop])"

lemma tick_campaigns:
  "electionTick now rnd (timeout, r) = ((timeout', r'), fx) \<Longrightarrow> \<not> removedFromCluster r \<Longrightarrow>
     r' = r \<and> fx = [] \<or> campaigns r r' fx"
  using startElection_cases [of now r r' fx]
  by (auto simp: electionTick_def campaigns_def split: if_splits prod.splits)

lemma handover_campaigns:
  assumes "TimeoutNow now req r = (r', resp, fx)" and "\<not> removedFromCluster r"
  shows "r' = r \<and> fx = [] \<or> campaigns r r' fx"
proof -
  let ?t = "int_of32 (tn_Term req)"
  let ?r = "if term_r r < ?t then adoptTerm ?t r else r"
  have "\<not> removedFromCluster ?r" "term_r r \<le> term_r ?r" "id_r ?r = id_r r" "peers ?r = peers r"
    using assms(2) by simp_all
  then show ?thesis
    using startElection_cases [of now ?r r' fx] assms(1)
    by (auto simp: TimeoutNow_def Let_def campaigns_def split: if_splits prod.splits)
qed

lemma launch_campaign:
  assumes "campaigns (nodes s i) r' fx" and "id_r (nodes s i) = i"
  shows "nodes (launch i r' fx s) = (nodes s)(i := r')"
    "grants (launch i r' fx s) = insert (term_r r', i, i) (grants s)"
    "counted (launch i r' fx s) = (counted s)(i := {i})" "answers (launch i r' fx s) = answers s"
    "calls (launch i r' fx s) = calls s \<union> {(j, p, t). j = i \<and> GoBroadcastRequestVote t \<in> set fx \<and>
       p \<in> set (broadcastRequestVote r')}"
  using assms by (auto simp: campaigns_def launch_def)

lemma member_node:
  "net_inv U s \<Longrightarrow> i \<in> U \<Longrightarrow> id_r (nodes s i) = i \<and> members (nodes s i) = U \<and> wf_peers (nodes s i) \<and>
     \<not> removedFromCluster (nodes s i) \<and> finite U \<and> i \<noteq> []"
  by (auto simp: net_inv_def member_inv_def)

lemma campaign_ballots:
  assumes inv: "net_inv U s" and i: "i \<in> U" and c: "campaigns (nodes s i) r' fx" and f: "fits32 (term_r r')"
  defines "s' \<equiv> launch i r' fx s"
  shows "ballot_inv U s'"
proof (rule ballotI)
  note m = member_node [OF inv i]
  note s' = launch_campaign [OF c conjunct1 [OF m], folded s'_def]
  have r: "term_r (nodes s i) < term_r r'" "peers r' = peers (nodes s i)" using c by (auto simp: campaigns_def)
  show "j \<in> U \<and> p \<in> U \<and> p \<noteq> j \<and> fits32 t \<and> t \<le> term_r (nodes s' j) \<and>
      (t = term_r (nodes s' j) \<and> state (nodes s' j) = Candidate \<longrightarrow> p \<notin> counted s' j)"
    if "(j, p, t) \<in> ballots s'" for j p t
  proof (cases "(j, p, t) \<in> ballots s")
    case True
    from ballotD [OF inv this] r(1) show ?thesis by (auto simp: s')
  next
    case False
    with that have "j = i" "GoBroadcastRequestVote t \<in> set fx" "p \<in> set (peers (nodes s i))"
      using r(2) by (auto simp: ballots_def s' broadcastRequestVote_def)
    moreover from this m have "p \<in> U" "p \<noteq> i" by (auto simp: members_def wf_peers_def)
    ultimately show ?thesis using c i f by (auto simp: campaigns_def s')
  qed
  show "(j, p, t) \<notin> calls s' \<and> (rvr_VoteGranted a \<longrightarrow> (t, p, j) \<in> grants s')"
    if "(j, p, t, a) \<in> answers s'" for j p t a
  proof -
    from that have a: "(j, p, t, a) \<in> answers s" "(j, p, t) \<in> ballots s" by (auto simp: s' ballots_def)
    have "j = i \<Longrightarrow> t < term_r r'" using ballotD [OF inv a(2)] r(1) by auto
    with answerD [OF inv a(1)] c show ?thesis by (auto simp: s' campaigns_def)
  qed
  show "single (answers_of (answers s'))" using answers_single [OF inv] by (simp add: s')
qed

lemma campaign_roles:
  assumes inv: "net_inv U s" and i: "i \<in> U" and c: "campaigns (nodes s i) r' fx"
  defines "s' \<equiv> launch i r' fx s"
  shows "role_inv U s'"
  unfolding role_inv_def
proof (intro ballI conjI impI)
  note m = member_node [OF inv i]
  note s' = launch_campaign [OF c conjunct1 [OF m], folded s'_def]
  fix j assume j: "j \<in> U"
  show "votes (nodes s' j) = int (card (counted s' j))" if "state (nodes s' j) = Candidate"
    using that inv j c by (cases "j = i") (auto simp: s' net_inv_def role_inv_def campaigns_def)
  show "counted s' j \<subseteq> {v \<in> U. (term_r (nodes s' j), v, j) \<in> grants s'}" if "state (nodes s' j) = Candidate"
    using that inv j i by (cases "j = i") (auto simp: s' net_inv_def role_inv_def)
  show "elected U s' j (term_r (nodes s' j))" if "state (nodes s' j) = Leader"
  proof (cases "j = i")
    case True
    with that c m have "U = {i}" by (auto simp: campaigns_def s' members_def)
    with True show ?thesis unfolding elected_def by (intro exI [of _ "{i}"]) (simp add: s')
  next
    case False
    with that inv j elected_mono [of U s j _ s'] show ?thesis by (auto simp: s' net_inv_def role_inv_def)
  qed
qed

lemma inv_campaign:
  assumes inv: "net_inv U s" and i: "i \<in> U" and c: "campaigns (nodes s i) r' fx" and f: "fits32 (term_r r')"
  shows "net_inv U (launch i r' fx s)"
proof -
  let ?s' = "launch i r' fx s" and ?s = "s\<lparr>nodes := (nodes s)(i := r')\<rparr>" and ?t = "term_r r'"
  note m = member_node [OF inv i]
  note s' = launch_campaign [OF c conjunct1 [OF m]]
  have "member_inv U ?s'"
    using inv c member_move [of U s ?s' i r'] by (simp add: net_inv_def s' campaigns_def)
  moreover have "keeps_vote (nodes s i) r'" using c m by (auto simp: keeps_vote_def campaigns_def)
  then have "grant_inv U ?s" using grant_keeps inv c by (simp add: net_inv_def campaigns_def)
  then have "grant_inv U ?s'"
    using grant_insert [of U ?s i i ?t] i m c grant_cong [of ?s' "?s\<lparr>grants := insert (?t, i, i) (grants ?s)\<rparr>" U]
    by (simp add: s' campaigns_def)
  ultimately show ?thesis
    using campaign_ballots [OF inv i c f] campaign_roles [OF inv i c] by (simp add: net_inv_def)
qed

lemma launch_idle: "launch i (nodes s i) [] s = s"
  by (simp add: launch_def split_def)

text \<open>A granted vote is counted.\<close>

definition votesPlus :: "raft \<Rightarrow> raft" where
  "votesPlus r = r\<lparr>votes := votes r + 1\<rparr>"

text \<open>The candidate after the vote: still a candidate, or a leader with a majority.\<close>

definition counts :: "raft \<Rightarrow> raft \<Rightarrow> bool" where
  "counts r r' \<longleftrightarrow> r' = votesPlus r \<or>
     majority (votesPlus r) \<le> votes (votesPlus r) \<and> r' = fst (becomeLeaderLocked (votesPlus r))"

definition tally :: "NodeID \<Rightarrow> NodeID \<Rightarrow> int \<Rightarrow> RequestVoteResponse \<Rightarrow> raft \<Rightarrow> net \<Rightarrow> net" where
  "tally i p t resp r' s = s\<lparr>nodes := (nodes s)(i := r'), answers := answers s - {(i, p, t, resp)},
        counted := (counted s)(i := insert p (counted s i))\<rparr>"

lemma counts_frame:
  "counts r r' \<Longrightarrow> id_r r' = id_r r \<and> peers r' = peers r \<and> removedFromCluster r' = removedFromCluster r \<and>
     term_r r' = term_r r \<and> votedFor r' = votedFor r \<and> votes r' = votes r + 1"
  by (auto simp: counts_def votesPlus_def)

lemma tally_ballots:
  assumes inv: "net_inv U s" and a: "(i, p, t, resp) \<in> answers s" and t: "t = term_r (nodes s i)"
    and c: "state (nodes s i) = Candidate" and r': "counts (nodes s i) r'"
  defines "s' \<equiv> tally i p t resp r' s"
  shows "ballot_inv U s'"
proof (rule ballotI)
  note s' = s'_def tally_def
  show "j \<in> U \<and> q \<in> U \<and> q \<noteq> j \<and> fits32 u \<and> u \<le> term_r (nodes s' j) \<and>
      (u = term_r (nodes s' j) \<and> state (nodes s' j) = Candidate \<longrightarrow> q \<notin> counted s' j)"
    if "(j, q, u) \<in> ballots s'" for j q u
  proof -
    from that have o: "(j, q, u) \<in> ballots s" by (auto simp: ballots_def s')
    have "(i, p, t) \<notin> calls s" "\<And>x. (i, p, t, x) \<in> answers s \<Longrightarrow> x = resp"
      using answerD [OF inv a] singleD [OF answers_single [OF inv], of "(i, p, t)"] a by auto
    then have "(i, p, t) \<notin> ballots s'" by (auto simp: ballots_def s')
    with that ballotD [OF inv o] t c counts_frame [OF r'] show ?thesis by (auto simp: s')
  qed
  show "(j, q, u) \<notin> calls s' \<and> (rvr_VoteGranted x \<longrightarrow> (u, q, j) \<in> grants s')"
    if "(j, q, u, x) \<in> answers s'" for j q u x
    using that answerD [OF inv, of j q u x] by (simp add: s')
  have "answers s' \<subseteq> answers s" by (auto simp: s')
  from single_subset [OF answers_single [OF inv] answers_of_mono [OF this]]
  show "single (answers_of (answers s'))" .
qed

lemma tally_roles:
  assumes inv: "net_inv U s" and a: "(i, p, t, resp) \<in> answers s" and g: "rvr_VoteGranted resp"
    and t: "t = term_r (nodes s i)" and c: "state (nodes s i) = Candidate" and r': "counts (nodes s i) r'"
  defines "s' \<equiv> tally i p t resp r' s"
  shows "role_inv U s'"
proof -
  note s' = s'_def tally_def
  have "(i, p, t) \<in> ballots s" using a by (auto simp: ballots_def)
  from ballotD [OF inv this] have i: "i \<in> U" "p \<in> U" "p \<notin> counted s i" using t c by auto
  note m = member_node [OF inv i(1)]
  have cnt: "votes (nodes s i) = int (card (counted s i))" "counted s i \<subseteq> {v \<in> U. (t, v, i) \<in> grants s}"
    using inv i(1) c t by (auto simp: net_inv_def role_inv_def)
  then have fin: "finite (counted s i)" using m finite_subset [of "counted s i" U] by auto
  have new: "insert p (counted s i) \<subseteq> {v \<in> U. (t, v, i) \<in> grants s}"
    "votes r' = int (card (insert p (counted s i)))"
    using cnt i answerD [OF inv a] g counts_frame [OF r'] fin by auto
  have "elected U s' i t" if "state r' = Leader"
  proof -
    have "majority (votesPlus (nodes s i)) \<le> votes r'" using that r' c by (auto simp: counts_def votesPlus_def)
    moreover have "int (card U) < 2 * majority (votesPlus (nodes s i))"
      using majority_double [of "votesPlus (nodes s i)"] card_members [of "nodes s i"] m
      by (simp add: votesPlus_def)
    ultimately show ?thesis unfolding elected_def
      using new by (intro exI [of _ "insert p (counted s i)"]) (auto simp: s')
  qed
  then show ?thesis using inv new counts_frame [OF r'] t
    by (auto simp: net_inv_def role_inv_def s' elected_def)
qed

lemma inv_count:
  assumes inv: "net_inv U s" and a: "(i, p, t, resp) \<in> answers s" and g: "rvr_VoteGranted resp"
    and t: "t = term_r (nodes s i)" and c: "state (nodes s i) = Candidate" and r': "counts (nodes s i) r'"
  shows "net_inv U (tally i p t resp r' s)"
proof -
  let ?s' = "tally i p t resp r' s"
  have "i \<in> U" using ballotD [OF inv, of i p t] a by (auto simp: ballots_def)
  note m = member_node [OF inv this] and f = counts_frame [OF r']
  have "member_inv U ?s'"
    using inv f m member_move [of U s ?s' i r'] by (simp add: net_inv_def tally_def)
  moreover have "grant_inv U ?s'"
    using inv f m grant_keeps [of U s i r'] grant_cong [of ?s' "s\<lparr>nodes := (nodes s)(i := r')\<rparr>" U]
    by (simp add: net_inv_def keeps_vote_same tally_def)
  ultimately show ?thesis
    using tally_ballots [OF inv a t c r'] tally_roles [OF inv a g t c r'] by (simp add: net_inv_def)
qed

subsection \<open>One leader per term\<close>

lemma deliver_cases:
  assumes "handleVoteResponse resp r = (r', fx)" and "\<not> removedFromCluster r"
  obtains (count) "rvr_VoteGranted resp" "state r = Candidate" "term_r r' = term_r r" "counts r r'"
  | (other) "moves r r'" "\<not> (rvr_VoteGranted resp \<and> state r = Candidate \<and> term_r r' = term_r r)"
proof (cases "rvr_VoteGranted resp \<and> state r = Candidate \<and> \<not> term_r r < int_of32 (rvr_Term resp)")
  case True
  then have "r' = (if majority (votesPlus r) \<le> votes (votesPlus r) then fst (becomeLeaderLocked (votesPlus r)) else votesPlus r)"
    using assms(1) by (auto simp: handleVoteResponse_def votesPlus_def Let_def split: if_splits)
  with True count show thesis by (auto simp: counts_def votesPlus_def split: if_splits)
next
  case False
  then have "r' = r \<or> r' = r\<lparr>term_r := int_of32 (rvr_Term resp), state := Follower, votedFor := []\<rparr> \<and>
      term_r r < int_of32 (rvr_Term resp)"
    using assms(1) by (auto simp: handleVoteResponse_def split: if_splits)
  then have "moves r r' \<and> (term_r r' = term_r r \<longrightarrow> r' = r)"
    using assms(2) by (auto simp: moves_def keeps_vote_def keeps_role_def)
  moreover have "\<not> (rvr_VoteGranted resp \<and> state r = Candidate \<and> term_r r' = term_r r)"
    using False assms(1) by (auto simp: handleVoteResponse_def split: if_splits)
  ultimately show thesis using other by blast
qed

lemma RequestVote_members:
  "peers (fst (RequestVote now req r)) = peers r"
  "removedFromCluster (fst (RequestVote now req r)) = removedFromCluster r"
  by (simp_all add: RequestVote_alt Let_def)

lemma inv_step:
  assumes "net_step True U s s'" and inv: "net_inv U s"
  shows "net_inv U s'"
  using assms(1)
proof cases
  case (tick i now rnd timeout timeout' r' fx)
  with tick_campaigns [OF tick(3)] member_node [OF inv tick(2)] inv_campaign [OF inv tick(2) _ tick(4)]
  show ?thesis using inv launch_idle [of i s] by auto
next
  case (handover i now req r' resp fx)
  with handover_campaigns [OF handover(3)] member_node [OF inv handover(2)] inv_campaign [OF inv handover(2) _ handover(4)]
  show ?thesis using inv launch_idle [of i s] by auto
next
  case (serve i p t req now r' resp)
  let ?s = "s\<lparr>nodes := (nodes s)(p := r')\<rparr>"
  have p: "p \<in> U" "fits32 t" using ballotD [OF inv, of i p t] serve(2) by (auto simp: ballots_def)
  have "moves (nodes s p) r'"
    using keeps_RequestVote [of "nodes s p" now req] role_RequestVote [of "nodes s p" now req]
      serve(5) member_node [OF inv p(1)] RequestVote_members [of now req "nodes s p"] by (simp add: moves_def)
  from inv_move [OF inv p(1) this] have "net_inv U ?s" .
  moreover have "rvr_VoteGranted resp \<Longrightarrow> term_r r' = t \<and> votedFor r' = i"
    using RequestVote_granted_state(2,3) [of now req "nodes s p"] serve(3,4,5) p(2) by (simp add: int_of32_int32)
  ultimately show ?thesis
    using inv_answer [of U ?s i p t resp] serve(1,2) by (cases "rvr_VoteGranted resp") simp_all
next
  case (deliver i p t resp r' fx)
  have i: "i \<in> U" using ballotD [OF inv, of i p t] deliver(2) by (auto simp: ballots_def)
  then have nr: "\<not> removedFromCluster (nodes s i)" using member_node [OF inv] by blast
  from deliver(3) nr show ?thesis
  proof (cases rule: deliver_cases)
    case count
    with deliver(4) inv_count [OF inv deliver(2)] show ?thesis by (simp add: deliver(1) tally_def)
  next
    case other
    let ?s = "s\<lparr>nodes := (nodes s)(i := r')\<rparr>"
    have "s' = ?s\<lparr>calls := calls ?s, answers := answers ?s - {(i, p, t, resp)}\<rparr>"
      using deliver(1) other(2) by auto
    then show ?thesis using inv_fewer [OF inv_move [OF inv i other(1)]] by blast
  qed
next
  case (lose_call c)
  then show ?thesis using inv_fewer [OF inv, of "calls s - {c}" "answers s"] by simp
next
  case (lose_answer a)
  then show ?thesis using inv_fewer [OF inv, of "calls s" "answers s - {a}"] by simp
next
  case (local i ev r')
  then have "moves (nodes s i) r'"
    using role_local [of ev "nodes s i"] raftnode.step_keeps [of "nodes s i" ev] member_node [OF inv, of i]
    by (simp add: moves_def)
  with inv_move [OF inv] local show ?thesis by blast
qed

lemma reachable_inv: "reachable True U s \<Longrightarrow> net_inv U s"
  by (induction rule: reachable.induct) (auto intro: inv_init inv_step)

lemma quorums_meet:
  assumes "finite U" "P \<subseteq> U" "Q \<subseteq> U" "card U < 2 * card P" "card U < 2 * card Q"
  obtains v where "v \<in> P" "v \<in> Q"
proof -
  have "card (P \<union> Q) + card (P \<inter> Q) = card P + card Q"
    using assms(1-3) finite_subset by (metis card_Un_Int)
  moreover have "card (P \<union> Q) \<le> card U" using assms(1-3) by (simp add: card_mono)
  ultimately have "P \<inter> Q \<noteq> {}" using assms(4,5) by fastforce
  then show thesis using that by blast
qed

text \<open>C1: election safety. In a cluster with fixed membership, however timers fire, calls and
  answers are delayed, reordered and lost, and all other handlers interleave, no two nodes are
  leader in the same term, provided a granted vote is only counted in the term it was
  asked for.\<close>

theorem election_safety:
  assumes "reachable True U s" and "i \<in> U" and "j \<in> U"
    and "state (nodes s i) = Leader" and "state (nodes s j) = Leader"
    and "term_r (nodes s i) = term_r (nodes s j)"
  shows "i = j"
proof -
  have inv: "net_inv U s" using reachable_inv assms(1) .
  let ?t = "term_r (nodes s j)"
  obtain P where P: "P \<subseteq> U" "card U < 2 * card P" "\<forall>v \<in> P. (?t, v, i) \<in> grants s"
    using inv assms(2,4,6) unfolding net_inv_def role_inv_def elected_def by metis
  obtain Q where Q: "Q \<subseteq> U" "card U < 2 * card Q" "\<forall>v \<in> Q. (?t, v, j) \<in> grants s"
    using inv assms(3,5) unfolding net_inv_def role_inv_def elected_def by metis
  have "finite U" using member_node [OF inv assms(2)] by blast
  from quorums_meet [OF this P(1) Q(1) P(2) Q(2)] obtain v where "v \<in> P" "v \<in> Q" .
  then show ?thesis
    using P(3) Q(3) inv singleD [of "votes_of (grants s)" "(?t, v)" i j] by (auto simp: net_inv_def grant_inv_def)
qed

subsection \<open>Runs of a cluster of three\<close>

definition trio :: "NodeID set" where
  "trio = {''A'', ''B'', ''C''}"

definition start3 :: net where
  "start3 = \<lparr>nodes = (\<lambda>i. newRaft i (filter (\<lambda>p. p \<noteq> i) [''A'', ''B'', ''C'']) 0 [] 0
       [\<lparr>Index = 0, Term = 0, Data = []\<rparr>] 0 None [] \<lparr>files = Map.empty, faults = []\<rparr>),
     calls = {}, answers = {}, grants = {}, counted = (\<lambda>i. {})\<rparr>"

definition campaign :: "NodeID \<Rightarrow> net \<Rightarrow> net" where
  "campaign i s = (let (r', fx) = startElectionLocked 9000000000 (nodes s i) in launch i r' fx s)"

definition ask :: "NodeID \<Rightarrow> NodeID \<Rightarrow> int \<Rightarrow> net \<Rightarrow> net" where
  "ask i p t s =
     (let (r', resp) = RequestVote 0 (voteRequest t (nodes s i)) (nodes s p) in
      s\<lparr>nodes := (nodes s)(p := r'), calls := calls s - {(i, p, t)},
        answers := insert (i, p, t, resp) (answers s),
        grants := (if rvr_VoteGranted resp then insert (t, p, i) (grants s) else grants s)\<rparr>)"

definition hear :: "NodeID \<Rightarrow> NodeID \<Rightarrow> int \<Rightarrow> RequestVoteResponse \<Rightarrow> net \<Rightarrow> net" where
  "hear i p t resp s =
     (let r' = fst (handleVoteResponse resp (nodes s i)) in
      s\<lparr>nodes := (nodes s)(i := r'), answers := answers s - {(i, p, t, resp)},
        counted := (if rvr_VoteGranted resp \<and> state (nodes s i) = Candidate \<and> term_r r' = term_r (nodes s i)
                    then (counted s)(i := insert p (counted s i)) else counted s)\<rparr>)"

lemma reach_start3: "reachable fresh trio start3"
  by (rule reachable.start)
     (auto simp: net_init_def start3_def trio_def newRaft_def members_def wf_peers_def)

lemma reach_campaign:
  assumes "reachable fresh U s" and "i \<in> U" and "state (nodes s i) \<noteq> Leader" and "\<not> removedFromCluster (nodes s i)"
    and "0 \<le> term_r (nodes s i)" "term_r (nodes s i) < 9" and "electionReset (nodes s i) \<le> 9000000000"
  shows "reachable fresh U (campaign i s)"
proof (rule reachable.step [OF assms(1)])
  obtain r' fx where e: "startElectionLocked 9000000000 (nodes s i) = (r', fx)" by fastforce
  have t: "electionTick 9000000000 0 (0, nodes s i) = ((randomElectionTimeout 0, r'), fx)"
    using assms(3,4,7) e by (simp add: electionTick_def)
  have "term_r r' = term_r (nodes s i) + 1" using startElection_cases(4) [OF e assms(4)] .
  then have "fits32 (term_r r')" using assms(5,6) by (simp add: fits32_def)
  from net_step.tick [OF assms(2) t this] show "net_step fresh U s (campaign i s)"
    by (simp add: campaign_def e)
qed

lemma reach_ask:
  assumes "reachable fresh U s" and "(i, p, t) \<in> calls s" and "id_r (nodes s i) = i"
  shows "reachable fresh U (ask i p t s)"
proof (rule reachable.step [OF assms(1)])
  obtain r' resp where e: "RequestVote 0 (voteRequest t (nodes s i)) (nodes s p) = (r', resp)" by fastforce
  have "rv_CandidateId (voteRequest t (nodes s i)) = i" "rv_Term (voteRequest t (nodes s i)) = int32 t"
    using assms(3) by (simp_all add: voteRequest_def)
  from net_step.serve [OF assms(2) this e] show "net_step fresh U s (ask i p t s)"
    by (simp add: ask_def e)
qed

lemma reach_hear:
  assumes "reachable fresh U s" and "(i, p, t, resp) \<in> answers s" and "\<not> fresh \<or> t = term_r (nodes s i)"
  shows "reachable fresh U (hear i p t resp s)"
proof (rule reachable.step [OF assms(1)])
  obtain r' fx where e: "handleVoteResponse resp (nodes s i) = (r', fx)" by fastforce
  from net_step.deliver [OF assms(2) e] assms(3) show "net_step fresh U s (hear i p t resp s)"
    by (auto simp: hear_def e)
qed

text \<open>A node of the cluster with an empty log.\<close>

definition looks :: "raft \<Rightarrow> NodeID \<Rightarrow> RaftState \<Rightarrow> int \<Rightarrow> int \<Rightarrow> NodeID \<Rightarrow> bool" where
  "looks r i st t vs vf \<longleftrightarrow> id_r r = i \<and> peers r = filter (\<lambda>p. p \<noteq> i) [''A'', ''B'', ''C''] \<and>
     \<not> removedFromCluster r \<and> log_r r = [\<lparr>Index = 0, Term = 0, Data = []\<rparr>] \<and> logBaseIndex r = 0 \<and>
     electionReset r \<le> 9000000000 \<and> state r = st \<and> term_r r = t \<and> votes r = vs \<and> votedFor r = vf"

lemma looks_start: "looks (nodes start3 i) i Follower 0 0 []"
  by (simp add: looks_def start3_def newRaft_def)

lemma looks_campaign:
  assumes "looks (nodes s i) i st t vs vf" and "i \<in> trio"
  shows "looks (nodes (campaign i s) i) i Candidate (t + 1) 1 i"
    and "j \<noteq> i \<Longrightarrow> nodes (campaign i s) j = nodes s j"
    and "calls (campaign i s) = calls s \<union> {i} \<times> (trio - {i}) \<times> {t + 1}"
    and "answers (campaign i s) = answers s"
proof -
  let ?r = "nodes s i"
  have p: "length (peers ?r) = 2" "peers ?r \<noteq> []" "set (filter (\<lambda>p. p \<noteq> []) (peers ?r)) = trio - {i}"
    using assms by (auto simp: looks_def trio_def)
  obtain r' where e: "startElectionLocked 9000000000 ?r = (r', [GoBroadcastRequestVote (t + 1)])"
    "looks r' i Candidate (t + 1) 1 i"
    using assms p(1) by (simp add: startElectionLocked_def looks_def Let_def majority_def)
  have b: "set (broadcastRequestVote r') = trio - {i}"
    using e(2) assms(2) by (auto simp: broadcastRequestVote_def looks_def trio_def)
  have "nodes (campaign i s) = (nodes s)(i := r')" "answers (campaign i s) = answers s"
    "calls (campaign i s) = calls s \<union> {(j, p, u). j = i \<and> u = t + 1 \<and> p \<in> trio - {i}}"
    using b e(1) by (simp_all add: campaign_def launch_def Let_def)
  with e(2) show "looks (nodes (campaign i s) i) i Candidate (t + 1) 1 i"
    "j \<noteq> i \<Longrightarrow> nodes (campaign i s) j = nodes s j"
    "calls (campaign i s) = calls s \<union> {i} \<times> (trio - {i}) \<times> {t + 1}"
    "answers (campaign i s) = answers s"
    by auto
qed

lemma looks_ask:
  assumes "looks (nodes s i) i st t vs vf" and "looks (nodes s p) p st' u vs' vf'" and "i \<in> trio" and "p \<noteq> i"
    and "u < t" and "fits32 t"
  shows "looks (nodes (ask i p t s) p) p Follower t vs' i"
    and "j \<noteq> p \<Longrightarrow> nodes (ask i p t s) j = nodes s j"
    and "calls (ask i p t s) = calls s - {(i, p, t)}"
    and "answers (ask i p t s) = insert (i, p, t, \<lparr>rvr_Term = int32 u, rvr_VoteGranted = True\<rparr>) (answers s)"
proof -
  let ?q = "voteRequest t (nodes s i)"
  have q: "rv_CandidateId ?q = i" "int_of32 (rv_Term ?q) = t" "lastPos (nodes s p) \<le> candidatePos ?q"
    "isKnownNode (nodes s p) i"
    using assms by (auto simp: voteRequest_def looks_def int_of32_int32 lastPos_def candidatePos_def
        lastLogTerm_def lastLogIndex_def fits32_def less_eq_logpos_def isKnownNode_def trio_def)
  then obtain r' where e: "RequestVote 0 ?q (nodes s p) = (r', \<lparr>rvr_Term = int32 u, rvr_VoteGranted = True\<rparr>)"
    "looks r' p Follower t vs' i"
    using assms(2,5) by (simp add: RequestVote_alt Let_def looks_def adoptTerm_def)
  then show "looks (nodes (ask i p t s) p) p Follower t vs' i"
    "j \<noteq> p \<Longrightarrow> nodes (ask i p t s) j = nodes s j"
    "calls (ask i p t s) = calls s - {(i, p, t)}"
    "answers (ask i p t s) = insert (i, p, t, \<lparr>rvr_Term = int32 u, rvr_VoteGranted = True\<rparr>) (answers s)"
    by (simp_all add: ask_def)
qed

lemma looks_hear:
  assumes "looks (nodes s i) i Candidate t 1 vf" and "i \<in> trio" and "int_of32 (rvr_Term resp) \<le> t" and "rvr_VoteGranted resp"
  shows "looks (nodes (hear i p u resp s) i) i Leader t 2 vf"
    and "j \<noteq> i \<Longrightarrow> nodes (hear i p u resp s) j = nodes s j"
    and "calls (hear i p u resp s) = calls s"
    and "answers (hear i p u resp s) = answers s - {(i, p, u, resp)}"
proof -
  have "length (peers (nodes s i)) = 2" using assms(1,2) by (auto simp: looks_def trio_def)
  then show "looks (nodes (hear i p u resp s) i) i Leader t 2 vf"
    "j \<noteq> i \<Longrightarrow> nodes (hear i p u resp s) j = nodes s j"
    "calls (hear i p u resp s) = calls s"
    "answers (hear i p u resp s) = answers s - {(i, p, u, resp)}"
    using assms by (auto simp: hear_def handleVoteResponse_def looks_def majority_def Let_def)
qed

text \<open>\<open>A\<close> campaigns in term 1 and \<open>B\<close> votes for it.\<close>

definition asked :: net where
  "asked = ask ''A'' ''B'' 1 (campaign ''A'' start3)"

abbreviation grant0 :: RequestVoteResponse where
  "grant0 \<equiv> \<lparr>rvr_Term = int32 0, rvr_VoteGranted = True\<rparr>"

lemma fits32_small: "0 \<le> t \<Longrightarrow> t < 9 \<Longrightarrow> fits32 t"
  by (simp add: fits32_def)

lemma trio_mem [simp]: "''A'' \<in> trio" "''B'' \<in> trio" "''C'' \<in> trio"
  by (simp_all add: trio_def)

lemma looks_ready:
  "looks r i st t vs vf \<Longrightarrow> st \<noteq> Leader \<Longrightarrow> 0 \<le> t \<Longrightarrow> t < 9 \<Longrightarrow> state r \<noteq> Leader \<and> \<not> removedFromCluster r \<and>
     0 \<le> term_r r \<and> term_r r < 9 \<and> electionReset r \<le> 9000000000 \<and> id_r r = i"
  by (simp add: looks_def)

lemma asked_facts:
  "reachable fresh trio asked"
  "looks (nodes asked ''A'') ''A'' Candidate 1 1 ''A''" "looks (nodes asked ''B'') ''B'' Follower 1 0 ''A''"
  "looks (nodes asked ''C'') ''C'' Follower 0 0 []" "(''A'', ''B'', 1, grant0) \<in> answers asked"
proof -
  let ?s = "campaign ''A'' start3"
  note c = looks_campaign [OF looks_start trio_mem(1)]
  have B: "looks (nodes ?s ''B'') ''B'' Follower 0 0 []" and C: "looks (nodes ?s ''C'') ''C'' Follower 0 0 []"
    using c(2) looks_start by simp_all
  have A: "looks (nodes ?s ''A'') ''A'' Candidate 1 1 ''A''" using c(1) by simp
  have "reachable fresh trio ?s"
    using reach_campaign [OF reach_start3 trio_mem(1)] looks_ready [OF looks_start] by simp
  then show "reachable fresh trio asked"
    using reach_ask [of fresh trio ?s "''A''" "''B''" 1] A c(3) by (simp add: asked_def looks_def)
  note a = looks_ask [OF A B trio_mem(1) _ _ fits32_small, simplified, folded asked_def]
  show "looks (nodes asked ''A'') ''A'' Candidate 1 1 ''A''" "looks (nodes asked ''B'') ''B'' Follower 1 0 ''A''"
    "looks (nodes asked ''C'') ''C'' Follower 0 0 []" "(''A'', ''B'', 1, grant0) \<in> answers asked"
    using a A C by simp_all
qed

theorem election_safety_witness:
  "\<exists>s. reachable True trio s \<and> {j \<in> trio. state (nodes s j) = Leader \<and> term_r (nodes s j) = 1} = {''A''}"
proof (intro exI conjI)
  let ?s = "hear ''A'' ''B'' 1 grant0 asked"
  note h = looks_hear [OF asked_facts(2) trio_mem(1), where resp = grant0 and p = "''B''" and u = 1]
  have A: "state (nodes ?s ''A'') = Leader" "term_r (nodes ?s ''A'') = 1"
    using h(1) by (simp_all add: looks_def int_of32_int32 fits32_def)
  show r: "reachable True trio ?s"
    using reach_hear [OF asked_facts(1,5)] asked_facts(2) by (simp add: looks_def)
  have "j = ''A''" if "j \<in> trio" "state (nodes ?s j) = Leader" "term_r (nodes ?s j) = 1" for j
    using election_safety [OF r that(1) trio_mem(1) that(2) A(1)] that(3) A(2) by simp
  then show "{j \<in> trio. state (nodes ?s j) = Leader \<and> term_r (nodes ?s j) = 1} = {''A''}"
    using A by auto
qed

text \<open>C25: the proviso is needed and the code does not establish it. \<^verbatim>\<open>handleVoteResponse\<close> does
  not compare the term a vote was given in with its own: a vote granted in an earlier campaign
  that arrives late is counted in the current one, and two nodes lead in the same term.\<close>

theorem stale_vote_two_leaders:
  "\<exists>s. reachable False trio s \<and> state (nodes s ''A'') = Leader \<and> state (nodes s ''C'') = Leader \<and>
     term_r (nodes s ''A'') = 2 \<and> term_r (nodes s ''C'') = 2"
proof -
  let ?s1 = "campaign ''A'' asked" let ?s2 = "campaign ''C'' ?s1" let ?s3 = "campaign ''C'' ?s2"
  let ?g = "\<lparr>rvr_Term = int32 1, rvr_VoteGranted = True\<rparr>"
  let ?s4 = "ask ''C'' ''B'' 2 ?s3" let ?s5 = "hear ''C'' ''B'' 2 ?g ?s4" let ?s6 = "hear ''A'' ''B'' 1 grant0 ?s5"
  note f = asked_facts
  note c1 = looks_campaign [OF f(2) trio_mem(1)]
  have C1: "looks (nodes ?s1 ''C'') ''C'' Follower 0 0 []" using c1(2) f(4) by simp
  note c2 = looks_campaign [OF C1 trio_mem(3)]
  have C2: "looks (nodes ?s2 ''C'') ''C'' Candidate 1 1 ''C''" using c2(1) by simp
  note c3 = looks_campaign [OF C2 trio_mem(3)]
  have C3: "looks (nodes ?s3 ''C'') ''C'' Candidate 2 1 ''C''" and B3: "looks (nodes ?s3 ''B'') ''B'' Follower 1 0 ''A''"
    and A3: "looks (nodes ?s3 ''A'') ''A'' Candidate 2 1 ''A''"
    using c1(1,2) c2(2) c3(1,2) f(3) by simp_all
  note a = looks_ask [OF C3 B3 trio_mem(3) _ _ fits32_small, simplified]
  have C4: "looks (nodes ?s4 ''C'') ''C'' Candidate 2 1 ''C''" and A4: "looks (nodes ?s4 ''A'') ''A'' Candidate 2 1 ''A''"
    using a(2) C3 A3 by simp_all
  note h = looks_hear [OF C4 trio_mem(3), where resp = ?g and p = "''B''" and u = 2]
  have C5: "looks (nodes ?s5 ''C'') ''C'' Leader 2 2 ''C''" and A5: "looks (nodes ?s5 ''A'') ''A'' Candidate 2 1 ''A''"
    using h(1,2) A4 by (simp_all add: int_of32_int32 fits32_def)
  note l = looks_hear [OF A5 trio_mem(1), where resp = grant0 and p = "''B''" and u = 1]
  have "looks (nodes ?s6 ''A'') ''A'' Leader 2 2 ''A''" "looks (nodes ?s6 ''C'') ''C'' Leader 2 2 ''C''"
    using l(1,2) C5 by (simp_all add: int_of32_int32 fits32_def)
  moreover have "reachable False trio ?s6"
  proof -
    have "reachable False trio ?s1"
      using reach_campaign [OF f(1) trio_mem(1)] looks_ready [OF f(2)] by simp
    then have "reachable False trio ?s2" using reach_campaign trio_mem(3) looks_ready [OF C1] by simp
    then have "reachable False trio ?s3" using reach_campaign trio_mem(3) looks_ready [OF C2] by simp
    then have "reachable False trio ?s4"
      using reach_ask [of False trio ?s3 "''C''" "''B''" 2] c3(3) looks_ready [OF C3] by simp
    then have "reachable False trio ?s5" using reach_hear a(4) by simp
    then show ?thesis
      using reach_hear [of False trio ?s5 "''A''" "''B''" 1 grant0] h(4) a(4) c1(4) c2(4) c3(4) f(5)
      by (simp add: int_of32_int32 fits32_def)
  qed
  ultimately show ?thesis by (auto simp: looks_def)
qed

end
