(* ===== verification/KV_Store.thy ===== *)
theory KV_Store
  imports Go_Codec "HOL-Library.List_Lexorder" "HOL-Library.Char_ord" "HOL-Library.AList"
begin

section \<open>The key-value store\<close>

text \<open>
  \<^verbatim>\<open>internal/storage/storage.go\<close>: a wrapper around the Pebble library. Pebble is a parameter:
  a record of its operations on a state \<open>'d\<close>, and \<open>pebble_ok\<close> states what its documentation
  says of them in terms of the map of keys to values that the state stands for: a successful
  write is seen by later reads, an iterator visits the keys in order, \<^verbatim>\<open>DeleteRange\<close> deletes
  the keys from its first bound (inclusive) to its second (exclusive). Nothing is said about
  a call that returns an error. An error of \<^verbatim>\<open>batch.Set\<close> is one of the commit.
\<close>

datatype pebbleGet = GetOk bytes | GetNotFound | GetErr error

record 'd pebble =
  db_Set :: "bytes \<Rightarrow> bytes \<Rightarrow> 'd \<Rightarrow> 'd \<times> error option"
  db_Get :: "bytes \<Rightarrow> 'd \<Rightarrow> pebbleGet"
  db_Delete :: "bytes \<Rightarrow> 'd \<Rightarrow> 'd \<times> error option"
  db_DeleteRange :: "bytes \<Rightarrow> bytes \<Rightarrow> 'd \<Rightarrow> 'd \<times> error option"
  db_Scan :: "'d \<Rightarrow> error + (bytes \<times> bytes) list"
  db_Commit :: "(bytes \<times> bytes) list \<Rightarrow> 'd \<Rightarrow> 'd \<times> error option"

definition pebble_ok :: "'d pebble \<Rightarrow> ('d \<Rightarrow> bytes \<rightharpoonup> bytes) \<Rightarrow> bool" where
  "pebble_ok P view \<longleftrightarrow>
     (\<forall>k v d d'. db_Set P k v d = (d', None) \<longrightarrow> view d' = (view d)(k \<mapsto> v)) \<and>
     (\<forall>k d. case db_Get P k d of GetOk v \<Rightarrow> view d k = Some v | GetNotFound \<Rightarrow> view d k = None | GetErr e \<Rightarrow> True) \<and>
     (\<forall>k d d'. db_Delete P k d = (d', None) \<longrightarrow> view d' = (view d)(k := None)) \<and>
     (\<forall>a b d d'. db_DeleteRange P a b d = (d', None) \<longrightarrow>
        view d' = (\<lambda>k. if a \<le> k \<and> k < b then None else view d k)) \<and>
     (\<forall>d kvs. db_Scan P d = Inr kvs \<longrightarrow>
        sorted (map fst kvs) \<and> distinct (map fst kvs) \<and> map_of kvs = view d) \<and>
     (\<forall>kvs d d'. db_Commit P kvs d = (d', None) \<and> distinct (map fst kvs) \<longrightarrow> view d' = view d ++ map_of kvs)"

subsection \<open>PebbleKV\<close>

definition kv_Put :: "'d pebble \<Rightarrow> bytes \<Rightarrow> bytes \<Rightarrow> 'd \<Rightarrow> 'd \<times> error option" where
  "kv_Put P key val d = db_Set P key val d"

definition kv_Get :: "'d pebble \<Rightarrow> bytes \<Rightarrow> 'd \<Rightarrow> error + bytes \<times> bool" where
  "kv_Get P key d =
     (case db_Get P key d of
        GetNotFound \<Rightarrow> Inr ([], False)
      | GetErr err \<Rightarrow> Inl err
      | GetOk v \<Rightarrow> Inr (v, True))"

definition kv_Delete :: "'d pebble \<Rightarrow> bytes \<Rightarrow> 'd \<Rightarrow> 'd \<times> error option" where
  "kv_Delete P key d = db_Delete P key d"

text \<open>A Go map with byte values as a JSON object: sorted keys, base64 values.\<close>

definition enc_bytesMap :: "(bytes \<times> bytes) list \<Rightarrow> json" where
  "enc_bytesMap kvs = JObj (map (\<lambda>(k, v). (k, enc_bytes v)) (sort_key fst kvs))"

text \<open>Decoding into a Go map: a later member with the same key wins.\<close>

definition dec_bytesMap :: "json \<Rightarrow> (bytes \<times> bytes) list option" where
  "dec_bytesMap v =
     (case v of
        JNull \<Rightarrow> Some []
      | JObj ms \<Rightarrow>
          map_option (\<lambda>kvs. AList.clearjunk (rev kvs))
            (traverse (\<lambda>(k, x). map_option (\<lambda>b. (k, b)) (dec_bytes x)) ms)
      | _ \<Rightarrow> None)"

definition kv_Snapshot :: "'d pebble \<Rightarrow> 'd \<Rightarrow> error + bytes" where
  "kv_Snapshot P d =
     (case db_Scan P d of
        Inl err \<Rightarrow> Inl err
      | Inr kvs \<Rightarrow> Inr (json_print (enc_bytesMap kvs)))"

definition kv_reset :: "'d pebble \<Rightarrow> 'd \<Rightarrow> 'd \<times> error option" where
  "kv_reset P d = db_DeleteRange P [] [] d"

definition kv_Restore :: "'d pebble \<Rightarrow> bytes \<Rightarrow> 'd \<Rightarrow> 'd \<times> error option" where
  "kv_Restore P data d =
     (if data = [] then kv_reset P d
      else case Unmarshal dec_bytesMap data of
        None \<Rightarrow> (d, Some ''invalid JSON'')
      | Some snapshotMap \<Rightarrow>
          (case kv_reset P d of
             (d1, Some err) \<Rightarrow> (d1, Some err)
           | (d1, None) \<Rightarrow> db_Commit P snapshotMap d1))"

subsection \<open>Snapshots\<close>

lemma traverse_pairs:
  "traverse (\<lambda>(k, x). map_option (\<lambda>b. (k, b)) (dec_bytes x)) (map (\<lambda>(k, v). (k, enc_bytes v)) kvs) = Some kvs"
  by (induction kvs) auto

lemma sort_key_same: "sorted (map fst kvs) \<Longrightarrow> sort_key fst kvs = kvs"
  by (rule sort_key_id_if_sorted)

lemma clearjunk_distinct: "distinct (map fst kvs) \<Longrightarrow> AList.clearjunk kvs = kvs"
  by (rule distinct_clearjunk_id)

lemma dec_enc_bytesMap:
  assumes "sorted (map fst kvs)" and "distinct (map fst kvs)"
  shows "dec_bytesMap (enc_bytesMap kvs) = Some (rev kvs)"
proof -
  have "distinct (map fst (rev kvs))" using assms(2) by (simp add: rev_map [symmetric])
  with assms(1) show ?thesis
    by (simp add: dec_bytesMap_def enc_bytesMap_def sort_key_same traverse_pairs clearjunk_distinct)
qed

lemma map_of_rev: "distinct (map fst kvs) \<Longrightarrow> map_of (rev kvs) = map_of kvs"
  using map_of_inject_set [of "rev kvs" kvs] by (simp add: rev_map [symmetric])

lemma reset_view: "pebble_ok P view \<Longrightarrow> kv_reset P d = (d', None) \<Longrightarrow> view d' = view d"
proof -
  assume "pebble_ok P view" "kv_reset P d = (d', None)"
  then have "view d' = (\<lambda>k. if [] \<le> k \<and> k < ([] :: bytes) then None else view d k)"
    unfolding pebble_ok_def kv_reset_def by blast
  then show ?thesis by simp
qed

lemma snapshot_restore_view:
  assumes ok: "pebble_ok P view" and s: "kv_Snapshot P d = Inr b"
    and u: "\<And>k. k \<in> dom (view d) \<Longrightarrow> utf8_valid k" and r: "kv_Restore P b e = (e', None)"
  shows "view e' = view e ++ view d"
proof -
  obtain kvs where k: "db_Scan P d = Inr kvs" "b = json_print (enc_bytesMap kvs)"
    using s by (auto simp: kv_Snapshot_def split: sum.splits)
  then have kvs: "sorted (map fst kvs)" "distinct (map fst kvs)" "map_of kvs = view d"
    using ok unfolding pebble_ok_def by blast+
  have "utf8_valid (fst m)" if "m \<in> set kvs" for m
    using u [of "fst m"] that kvs(3) by (metis domIff map_of_eq_None_iff image_eqI)
  then have j: "json_ok (enc_bytesMap kvs)"
    using kvs(1) by (auto simp: enc_bytesMap_def sort_key_same)
  have ne: "b \<noteq> []" using k(2) by (simp add: enc_bytesMap_def)
  have "Unmarshal dec_bytesMap b = Some (rev kvs)"
    using k(2) j dec_enc_bytesMap [OF kvs(1,2)] by simp
  with r ne obtain d1 where d1: "kv_reset P e = (d1, None)" "db_Commit P (rev kvs) d1 = (e', None)"
    by (auto simp: kv_Restore_def split: prod.splits option.splits)
  have "distinct (map fst (rev kvs))" using kvs(2) by (simp add: rev_map [symmetric])
  with ok d1(2) have "view e' = view d1 ++ map_of (rev kvs)" unfolding pebble_ok_def by blast
  with reset_view [OF ok d1(1)] map_of_rev [OF kvs(2)] kvs(3) show ?thesis by simp
qed


text \<open>C26: \<^verbatim>\<open>Restore\<close> does not wipe the database. Its \<^verbatim>\<open>reset\<close> deletes the range from the empty
  key to the empty key, which by Pebble's description is empty: a key that is not in the
  snapshot keeps the value it had, so a follower that installs a snapshot brings deleted keys
  back to life. The comment says that all data is wiped.\<close>

theorem Restore_keeps_old_keys:
  assumes "pebble_ok P view" and "kv_Snapshot P d = Inr b" and "\<And>k. k \<in> dom (view d) \<Longrightarrow> utf8_valid k"
    and "kv_Restore P b e = (e', None)" and "view d k = None" and "view e k = Some v"
  shows "view e' k = Some v"
  using snapshot_restore_view [OF assms(1-4)] assms(5,6) by (simp add: map_add_def)

subsection \<open>An in-memory instance\<close>

definition memPebble :: "(bytes \<times> bytes) list pebble" where
  "memPebble = \<lparr>db_Set = (\<lambda>k v d. ((k, v) # d, None)),
     db_Get = (\<lambda>k d. case map_of d k of None \<Rightarrow> GetNotFound | Some v \<Rightarrow> GetOk v),
     db_Delete = (\<lambda>k d. (filter (\<lambda>p. fst p \<noteq> k) d, None)),
     db_DeleteRange = (\<lambda>a b d. (filter (\<lambda>p. \<not> (a \<le> fst p \<and> fst p < b)) d, None)),
     db_Scan = (\<lambda>d. Inr (sort_key fst (AList.clearjunk d))),
     db_Commit = (\<lambda>kvs d. (kvs @ d, None))\<rparr>"

lemma map_of_filter_keys: "map_of (filter (\<lambda>p. Q (fst p)) d) = (\<lambda>k. if Q k then map_of d k else None)"
  by (induction d) (auto simp: fun_eq_iff)

lemma map_of_sort:
  assumes "distinct (map fst kvs)"
  shows "distinct (map fst (sort_key fst kvs))" "map_of (sort_key fst kvs) = map_of kvs"
proof -
  show d: "distinct (map fst (sort_key fst kvs))" using assms by (simp add: distinct_map)
  show "map_of (sort_key fst kvs) = map_of kvs" using map_of_inject_set [OF d assms] by simp
qed

lemma memPebble_ok: "pebble_ok memPebble map_of"
  unfolding pebble_ok_def
proof (intro conjI allI impI)
  fix k :: bytes and d :: "(bytes \<times> bytes) list"
  show "case db_Get memPebble k d of GetOk v \<Rightarrow> map_of d k = Some v | GetNotFound \<Rightarrow> map_of d k = None | GetErr e \<Rightarrow> True"
    by (simp add: memPebble_def split: option.split)
  show "map_of d' = (map_of d)(k := None)" if "db_Delete memPebble k d = (d', None)" for d'
    using that map_of_filter_keys [of "\<lambda>x. x \<noteq> k" d] by (auto simp: memPebble_def fun_eq_iff)
  show "sorted (map fst kvs)" "distinct (map fst kvs)" "map_of kvs = map_of d"
    if "db_Scan memPebble d = Inr kvs" for kvs
    using that map_of_sort [of "AList.clearjunk d"] by (auto simp: memPebble_def map_of_clearjunk distinct_clearjunk)
  show "map_of d' = (\<lambda>k. if a \<le> k \<and> k < b then None else map_of d k)"
    if "db_DeleteRange memPebble a b d = (d', None)" for a b d'
    using that map_of_filter_keys [of "\<lambda>x. \<not> (a \<le> x \<and> x < b)" d] by (auto simp: memPebble_def fun_eq_iff)
qed (auto simp: memPebble_def)

definition pairs4 :: "(bytes \<times> bytes) list" where
  "pairs4 = [(''a'', ''1''), (''b'', ''2'')]"

lemma pairs4_facts:
  "sorted (map fst pairs4)" "distinct (map fst pairs4)" "k \<in> dom (map_of pairs4) \<Longrightarrow> utf8_valid k"
  "kv_Snapshot memPebble pairs4 = Inr (json_print (enc_bytesMap pairs4))"
proof -
  show s: "sorted (map fst pairs4)" "distinct (map fst pairs4)" by (simp_all add: pairs4_def)
  show "k \<in> dom (map_of pairs4) \<Longrightarrow> utf8_valid k"
    by (auto simp: pairs4_def intro!: utf8_valid_ascii split: if_splits)
  show "kv_Snapshot memPebble pairs4 = Inr (json_print (enc_bytesMap pairs4))"
    using s by (simp add: kv_Snapshot_def memPebble_def clearjunk_distinct sort_key_same)
qed

lemma pairs4_restore:
  obtains e' where "kv_Restore memPebble (json_print (enc_bytesMap pairs4)) e = (e', None)"
proof -
  have "json_ok (enc_bytesMap pairs4)"
    by (auto simp: enc_bytesMap_def pairs4_def intro!: utf8_valid_ascii)
  then have "Unmarshal dec_bytesMap (json_print (enc_bytesMap pairs4)) = Some (rev pairs4)"
    using dec_enc_bytesMap [OF pairs4_facts(1,2)] by simp
  moreover have "json_print (enc_bytesMap pairs4) \<noteq> []" by (simp add: enc_bytesMap_def)
  ultimately show thesis using that by (simp add: kv_Restore_def kv_reset_def memPebble_def)
qed


theorem Restore_keeps_old_keys_witness:
  "map_of (fst (kv_Restore memPebble (json_print (enc_bytesMap pairs4)) [(''gone'', ''x'')])) ''gone'' = Some ''x''"
proof -
  obtain e' where e: "kv_Restore memPebble (json_print (enc_bytesMap pairs4)) [(''gone'', ''x'')] = (e', None)"
    by (rule pairs4_restore)
  have n: "map_of pairs4 ''gone'' = None" by (simp add: pairs4_def)
  have "map_of e' ''gone'' = Some ''x''"
  proof (rule Restore_keeps_old_keys [OF memPebble_ok pairs4_facts(4)])
    show "utf8_valid k" if "k \<in> dom (map_of pairs4)" for k using that by (rule pairs4_facts(3))
  qed (rule e, rule n, simp)
  then show ?thesis unfolding e by simp
qed

end
