(* ===== verification/State_Machine.thy ===== *)
theory State_Machine
  imports Raft_System KV_Store
begin

section \<open>The replicated state machine\<close>

text \<open>
  The commands that the API server puts into the log (\<^verbatim>\<open>internal/api/server.go\<close>,
  \<^verbatim>\<open>internal/raft/types.go\<close>) and the loop of the daemon that applies them to the store
  (\<^verbatim>\<open>cmd/mimorid/main.go\<close>), with the daemon's reading of its environment. The server writes
  the fields \<^verbatim>\<open>op\<close>, \<^verbatim>\<open>key\<close> and \<^verbatim>\<open>value\<close>; the daemon decodes into a struct whose fields have
  no JSON names, so they match by ignoring case. The specification is a map of keys to values
  and the sequence of operations the log stands for.
\<close>

subsection \<open>Commands\<close>

record Command =
  cmd_Op :: int
  cmd_Key :: bytes
  cmd_Value :: bytes

definition put_Command :: "string \<Rightarrow> json \<Rightarrow> Command \<Rightarrow> Command option" where
  "put_Command f v c =
     (if f = ''Op'' then map_option (\<lambda>i. c\<lparr>cmd_Op := i\<rparr>) (dec_int v (cmd_Op c))
      else if f = ''Key'' then map_option (\<lambda>b. c\<lparr>cmd_Key := b\<rparr>) (dec_bytes v)
      else map_option (\<lambda>b. c\<lparr>cmd_Value := b\<rparr>) (dec_bytes v))"

definition dec_Command :: "json \<Rightarrow> Command option" where
  "dec_Command =
     dec_struct [''Op'', ''Key'', ''Value''] put_Command \<lparr>cmd_Op = 0, cmd_Key = [], cmd_Value = []\<rparr>"

text \<open>\<^verbatim>\<open>raftCommand\<close>: the value is left out when it is empty.\<close>

definition enc_raftCommand :: "int \<Rightarrow> bytes \<Rightarrow> bytes \<Rightarrow> json" where
  "enc_raftCommand op key val =
     JObj ([(''op'', enc_int op), (''key'', enc_bytes key)] @
           (if val = [] then [] else [(''value'', enc_bytes val)]))"

definition encodePutCmd :: "bytes \<Rightarrow> bytes \<Rightarrow> bytes" where
  "encodePutCmd key val = json_print (enc_raftCommand (CommandType_int CmdPut) key val)"

definition encodeDeleteCmd :: "bytes \<Rightarrow> bytes" where
  "encodeDeleteCmd key = json_print (enc_raftCommand (CommandType_int CmdDelete) key [])"

subsection \<open>The apply loop\<close>

text \<open>One entry from the apply channel; errors of the store are logged only.\<close>

definition applyEntry :: "'d pebble \<Rightarrow> LogEntry \<Rightarrow> 'd \<Rightarrow> 'd" where
  "applyEntry P entry d =
     (case Unmarshal dec_Command (Data entry) of
        None \<Rightarrow> d
      | Some cmd \<Rightarrow>
          if cmd_Op cmd = CommandType_int CmdPut then fst (kv_Put P (cmd_Key cmd) (cmd_Value cmd) d)
          else if cmd_Op cmd = CommandType_int CmdDelete then fst (kv_Delete P (cmd_Key cmd) d)
          else d)"

definition applyLoop :: "'d pebble \<Rightarrow> LogEntry list \<Rightarrow> 'd \<Rightarrow> 'd" where
  "applyLoop P entries d = fold (applyEntry P) entries d"

subsection \<open>The environment of the daemon\<close>

definition env :: "(string \<rightharpoonup> string) \<Rightarrow> string \<Rightarrow> string \<Rightarrow> string" where
  "env getenv k dflt = (let v = (case getenv k of Some v \<Rightarrow> v | None \<Rightarrow> []) in if v \<noteq> [] then v else dflt)"

definition convertPeersToNodeIDs :: "string list \<Rightarrow> NodeID list" where
  "convertPeersToNodeIDs ps = filter (\<lambda>p. p \<noteq> []) ps"

definition splitPeers :: "string \<Rightarrow> string list" where
  "splitPeers s = (if s = [] then [] else filter (\<lambda>p. p \<noteq> []) (Split s (CHR '','')))"

record daemonConfig =
  dc_addr :: string
  dc_dataDir :: string
  dc_nodeID :: string
  dc_peers :: "string list"

definition daemonConfigOf :: "(string \<rightharpoonup> string) \<Rightarrow> daemonConfig" where
  "daemonConfigOf getenv =
     (let addr = env getenv ''MIMORI_ADDR'' '':4000''; n = env getenv ''MIMORI_NODE_ID'' addr in
      \<lparr>dc_addr = addr, dc_dataDir = env getenv ''MIMORI_DATA'' ''data'',
       dc_nodeID = (if n = [] then addr else n),
       dc_peers = splitPeers (env getenv ''MIMORI_PEERS'' [])\<rparr>)"

text \<open>The Raft node the daemon starts.\<close>

definition startNode :: "(string \<rightharpoonup> string) \<Rightarrow> time \<Rightarrow> fs \<Rightarrow> raft" where
  "startNode getenv now d =
     (let c = daemonConfigOf getenv in
      New (dc_nodeID c) (convertPeersToNodeIDs (dc_peers c)) (dc_dataDir c) now d)"

subsection \<open>The specification\<close>

datatype kvOp = PutOp bytes bytes | DeleteOp bytes | NoOp

fun spec_apply :: "kvOp \<Rightarrow> (bytes \<rightharpoonup> bytes) \<Rightarrow> (bytes \<rightharpoonup> bytes)" where
  "spec_apply (PutOp k v) m = m(k \<mapsto> v)"
| "spec_apply (DeleteOp k) m = m(k := None)"
| "spec_apply NoOp m = m"

definition entryOp :: "LogEntry \<Rightarrow> kvOp" where
  "entryOp entry =
     (case Unmarshal dec_Command (Data entry) of
        None \<Rightarrow> NoOp
      | Some cmd \<Rightarrow>
          if cmd_Op cmd = 0 then PutOp (cmd_Key cmd) (cmd_Value cmd)
          else if cmd_Op cmd = 1 then DeleteOp (cmd_Key cmd) else NoOp)"

definition spec_state :: "LogEntry list \<Rightarrow> (bytes \<rightharpoonup> bytes) \<Rightarrow> (bytes \<rightharpoonup> bytes)" where
  "spec_state entries m = fold spec_apply (map entryOp entries) m"

text \<open>Writes that do not fail.\<close>

definition pebble_writes :: "'d pebble \<Rightarrow> bool" where
  "pebble_writes P \<longleftrightarrow> (\<forall>k v d. snd (db_Set P k v d) = None) \<and> (\<forall>k d. snd (db_Delete P k d) = None)"

lemma fold_names:
  "field_of [''Op'', ''Key'', ''Value''] ''op'' = Some ''Op''"
  "field_of [''Op'', ''Key'', ''Value''] ''key'' = Some ''Key''"
  "field_of [''Op'', ''Key'', ''Value''] ''value'' = Some ''Value''"
  "field_of [''Op'', ''Key'', ''Value''] ''type'' = None"
  "field_of [''Op'', ''Key'', ''Value''] ''node_id'' = None"
  by (simp_all add: field_of_def fold_name_def runes_ascii fold_rune_def char_of_def bit_0)

lemma Unmarshal_raftCommand:
  assumes "int64_range op"
  shows "Unmarshal dec_Command (json_print (enc_raftCommand op k v)) = Some \<lparr>cmd_Op = op, cmd_Key = k, cmd_Value = v\<rparr>"
proof -
  have "json_ok (enc_raftCommand op k v)" by (simp add: enc_raftCommand_def utf8_valid_ascii)
  then show ?thesis
    using assms by (simp add: enc_raftCommand_def dec_Command_def dec_struct_def fold_names put_Command_def
        del: json_print.simps)
qed

lemma Unmarshal_config_Command:
  assumes "utf8_valid n"
  shows "Unmarshal dec_Command (configData ct n) = Some \<lparr>cmd_Op = 2, cmd_Key = [], cmd_Value = []\<rparr>"
proof -
  have "json_ok (enc_configCmd \<lparr>cc_Op = 2, cc_Type = changeName ct, cc_NodeID = n\<rparr>)"
    using assms by (cases ct) (simp_all add: enc_configCmd_def utf8_valid_ascii)
  then show ?thesis
    by (simp add: configData_def enc_configCmd_def dec_Command_def dec_struct_def fold_names put_Command_def int64_range_def
        del: json_print.simps)
qed

lemma field_of_config:
  "field_of [''op'', ''type'', ''node_id''] ''key'' = None" "field_of [''op'', ''type'', ''node_id''] ''value'' = None"
  by (simp_all add: field_of_def fold_name_def runes_ascii fold_rune_def char_of_def bit_0)

lemma Unmarshal_Command_config:
  assumes "int64_range op"
  shows "Unmarshal dec_configCmd (json_print (enc_raftCommand op k v)) = Some \<lparr>cc_Op = op, cc_Type = [], cc_NodeID = []\<rparr>"
proof -
  have "json_ok (enc_raftCommand op k v)" by (simp add: enc_raftCommand_def utf8_valid_ascii)
  then show ?thesis
    using assms by (simp add: enc_raftCommand_def dec_configCmd_def dec_struct_def field_of_config put_configCmd_def
        del: json_print.simps)
qed

lemma commands_roundtrip_op:
  "entryOp \<lparr>Index = i, Term = t, Data = encodePutCmd k v\<rparr> = PutOp k v"
  "entryOp \<lparr>Index = i, Term = t, Data = encodeDeleteCmd k\<rparr> = DeleteOp k"
proof -
  have "int64_range 0" "int64_range 1" by (simp_all add: int64_range_def)
  then show "entryOp \<lparr>Index = i, Term = t, Data = encodePutCmd k v\<rparr> = PutOp k v"
    "entryOp \<lparr>Index = i, Term = t, Data = encodeDeleteCmd k\<rparr> = DeleteOp k"
    by (simp_all add: entryOp_def encodePutCmd_def encodeDeleteCmd_def Unmarshal_raftCommand)
qed



subsection \<open>Replicas agree\<close>

lemma applyEntry_view:
  assumes "pebble_ok P view" and "pebble_writes P"
  shows "view (applyEntry P e d) = spec_apply (entryOp e) (view d)"
proof -
  have "view (fst (db_Set P k v d)) = (view d)(k \<mapsto> v)" "view (fst (db_Delete P k d)) = (view d)(k := None)" for k v
  proof -
    have "db_Set P k v d = (fst (db_Set P k v d), None)" "db_Delete P k d = (fst (db_Delete P k d), None)"
      using assms(2) by (auto simp: pebble_writes_def prod_eq_iff)
    with assms(1) show "view (fst (db_Set P k v d)) = (view d)(k \<mapsto> v)" "view (fst (db_Delete P k d)) = (view d)(k := None)"
      unfolding pebble_ok_def by blast+
  qed
  then show ?thesis
    by (simp add: applyEntry_def entryOp_def kv_Put_def kv_Delete_def split: option.split)
qed

lemma applyLoop_view:
  assumes "pebble_ok P view" and "pebble_writes P"
  shows "view (applyLoop P es d) = spec_state es (view d)"
  by (induction es arbitrary: d) (simp_all add: applyLoop_def spec_state_def applyEntry_view [OF assms])

definition committedEntries :: "raft \<Rightarrow> LogEntry list" where
  "committedEntries r = map (\<lambda>i. the (entryAt r i)) [1..commitIndex r]"

text \<open>A node that has applied nothing yet and has its whole log.\<close>

definition fresh_node :: "raft \<Rightarrow> bool" where
  "fresh_node r \<longleftrightarrow> wf_log r \<and> logBaseIndex r = 0 \<and> lastApplied r = 0 \<and> applyCh r = [] \<and>
     0 \<le> commitIndex r \<and> commitIndex r \<le> lastLogIndex r"

lemma fresh_node_applies: "fresh_node r \<Longrightarrow> applyCh (runApplier now sn r) = committedEntries r"
  using runApplier_spec(1) [of r now sn] by (simp add: fresh_node_def committedEntries_def)


text \<open>Two replicas of a log with two commands.\<close>

definition replica :: "NodeID \<Rightarrow> raft" where
  "replica i = (newRaft i [] 1 [] 0
     [\<lparr>Index = 0, Term = 0, Data = []\<rparr>, \<lparr>Index = 1, Term = 1, Data = encodePutCmd ''k'' ''1''\<rparr>,
      \<lparr>Index = 2, Term = 1, Data = encodePutCmd ''k'' ''2''\<rparr>] 0 None [] \<lparr>files = Map.empty, faults = []\<rparr>)
     \<lparr>commitIndex := 2\<rparr>"

lemma replica_fields:
  "log_r (replica i) = [\<lparr>Index = 0, Term = 0, Data = []\<rparr>, \<lparr>Index = 1, Term = 1, Data = encodePutCmd ''k'' ''1''\<rparr>,
      \<lparr>Index = 2, Term = 1, Data = encodePutCmd ''k'' ''2''\<rparr>]"
  "logBaseIndex (replica i) = 0" "commitIndex (replica i) = 2" "lastApplied (replica i) = 0" "applyCh (replica i) = []"
  by (simp_all add: replica_def newRaft_def)

lemma replica_facts:
  "fresh_node (replica i)" "log_matching (replica i) (replica j)" "entryAt (replica i) n = entryAt (replica j) n"
  "committedEntries (replica i) = [\<lparr>Index = 1, Term = 1, Data = encodePutCmd ''k'' ''1''\<rparr>,
     \<lparr>Index = 2, Term = 1, Data = encodePutCmd ''k'' ''2''\<rparr>]"
proof -
  show e: "entryAt (replica i) n = entryAt (replica j) n" for i j n
    by (rule entryAt_cong) (simp_all add: replica_fields)
  show "log_matching (replica i) (replica j)"
    by (rule agree_all_matching) (auto simp: same_at_def e [of i _ j] replica_fields)
  have "contiguous 0 (log_r (replica i))" by (simp add: replica_fields contiguous_def nth_Cons split: nat.split)
  then show "fresh_node (replica i)"
    by (simp add: fresh_node_def replica_fields wf_log_def lastLogIndex_def)
  show "committedEntries (replica i) = [\<lparr>Index = 1, Term = 1, Data = encodePutCmd ''k'' ''1''\<rparr>,
     \<lparr>Index = 2, Term = 1, Data = encodePutCmd ''k'' ''2''\<rparr>]"
    by (simp add: committedEntries_def replica_fields entryAt_eq upto.simps)
qed

lemma memPebble_writes: "pebble_writes memPebble"
  by (simp add: pebble_writes_def memPebble_def)


subsection \<open>Applying again after a restart\<close>

fun touches :: "kvOp \<Rightarrow> bytes \<Rightarrow> bool" where
  "touches (PutOp k v) j \<longleftrightarrow> j = k"
| "touches (DeleteOp k) j \<longleftrightarrow> j = k"
| "touches NoOp j \<longleftrightarrow> False"

lemma spec_apply_other: "\<not> touches op j \<Longrightarrow> spec_apply op m j = m j"
  by (cases op) simp_all

lemma spec_apply_touched: "touches op j \<Longrightarrow> spec_apply op m j = spec_apply op m' j"
  by (cases op) simp_all

lemma fold_untouched: "\<forall>op \<in> set ops. \<not> touches op j \<Longrightarrow> fold spec_apply ops m j = m j"
  by (induction ops arbitrary: m) (simp_all add: spec_apply_other)

lemma fold_determined:
  "m j = m' j \<or> (\<exists>op \<in> set ops. touches op j) \<Longrightarrow> fold spec_apply ops m j = fold spec_apply ops m' j"
proof (induction ops arbitrary: m m')
  case (Cons op ops)
  show ?case
  proof (cases "touches op j")
    case True
    then have "spec_apply op m j = spec_apply op m' j" by (rule spec_apply_touched)
    then show ?thesis using Cons.IH by simp
  next
    case False
    then show ?thesis using Cons.prems Cons.IH [of "spec_apply op m" "spec_apply op m'"] by (auto simp: spec_apply_other)
  qed
qed simp

lemma replay_ops: "set ps \<subseteq> set ops \<Longrightarrow> fold spec_apply ops (fold spec_apply ps m) = fold spec_apply ops m"
proof
  fix j assume s: "set ps \<subseteq> set ops"
  show "fold spec_apply ops (fold spec_apply ps m) j = fold spec_apply ops m j"
  proof (cases "\<exists>op \<in> set ops. touches op j")
    case False
    with s have "\<forall>op \<in> set ps. \<not> touches op j" by blast
    from fold_untouched [OF this] show ?thesis by (rule fold_determined [OF disjI1])
  next
    case True
    then show ?thesis by (rule fold_determined [OF disjI2])
  qed
qed



end
