(* ===== verification/KV_Service.thy ===== *)
theory KV_Service
  imports State_Machine
begin

section \<open>The key-value service\<close>

text \<open>
  The gRPC methods of \<^verbatim>\<open>internal/api/server.go\<close> over a node and its store. A write that is
  accepted blocks on the channel of \<^verbatim>\<open>AppliedWait\<close>: it is split there into the part before,
  which returns the channel, and the answer once the channel is closed. Errors are gRPC
  statuses or plain errors.
\<close>

datatype grpcCode = FailedPrecondition | NotFound | InvalidArgument | OtherCode

datatype grpcErr = Status grpcCode string | PlainErr string

definition notLeader :: "raft \<Rightarrow> grpcErr" where
  "notLeader r = Status FailedPrecondition (''not leader, leader='' @ LeaderID r)"

definition proposeAndWait :: "bytes \<Rightarrow> raft \<Rightarrow> raft \<times> (grpcErr + nat)" where
  "proposeAndWait data r =
     (case Propose data r of
        (r1, Inl err) \<Rightarrow> (r1, Inl (PlainErr err))
      | (r1, Inr index) \<Rightarrow> let (r2, ch) = AppliedWait index r1 in (r2, Inr ch))"

definition Server_Put :: "bytes \<Rightarrow> bytes \<Rightarrow> raft \<Rightarrow> raft \<times> (grpcErr + nat)" where
  "Server_Put key val r =
     (if \<not> IsLeader r then (r, Inl (notLeader r))
      else proposeAndWait (encodePutCmd key val) r)"

definition Server_Delete :: "bytes \<Rightarrow> raft \<Rightarrow> raft \<times> (grpcErr + nat)" where
  "Server_Delete key r =
     (if \<not> IsLeader r then (r, Inl (notLeader r))
      else proposeAndWait (encodeDeleteCmd key) r)"

text \<open>The answer \<^verbatim>\<open>Ok: true\<close> or \<^verbatim>\<open>Deleted: true\<close> leaves once the channel is closed.\<close>

definition acknowledged :: "nat \<Rightarrow> raft \<Rightarrow> bool" where
  "acknowledged ch r \<longleftrightarrow> ch \<in> closed r"

definition Server_Get :: "'d pebble \<Rightarrow> time \<Rightarrow> bytes \<Rightarrow> bool \<Rightarrow> raft \<Rightarrow> 'd \<Rightarrow> grpcErr + bytes \<times> bool" where
  "Server_Get P now key allowStale r d =
     (if \<not> IsLeader r \<and> allowStale \<and> \<not> HasReadLease now r then
        Inl (Status FailedPrecondition (''follower read lease expired, leader='' @ LeaderID r))
      else if \<not> IsLeader r \<and> \<not> allowStale then
        Inl (Status FailedPrecondition
               (''not leader, leader='' @ LeaderID r @ '' (use allow_stale=true for follower reads)''))
      else case kv_Get P key d of Inl err \<Rightarrow> Inl (PlainErr err) | Inr vf \<Rightarrow> Inr vf)"

definition Server_Health :: string where
  "Server_Health = ''ok''"

subsection \<open>Reads\<close>

text \<open>C30: who answers a read. A node answers, with what its store holds, exactly when it is
  the leader, or the caller allows stale data and the node follows a leader from which it has
  had a message (or for which it has voted) within the last four seconds and it has not been
  removed; every other read is refused, and the refusal names the leader the node knows.\<close>

theorem Server_Get_policy:
  "case Server_Get P now key allowStale r d of
     Inr vf \<Rightarrow>
       (IsLeader r \<or> allowStale \<and> \<not> removedFromCluster r \<and> state r = Follower \<and> leader r \<noteq> [] \<and>
          now - electionReset r < 4000000000) \<and>
       kv_Get P key d = Inr vf
   | Inl (PlainErr err) \<Rightarrow> kv_Get P key d = Inl err
   | Inl (Status c msg) \<Rightarrow>
       \<not> IsLeader r \<and> (if allowStale then \<not> HasReadLease now r else True) \<and> c = FailedPrecondition \<and>
       Contains msg (''leader='' @ leader r)"
proof -
  have c: "Contains (a @ b @ x) b" for a b x
  proof -
    have p: "HasPrefix (b @ x) b" by (induction b) auto
    have "strIndex (a @ b @ x) b \<noteq> None"
    proof (induction a)
      case Nil
      show ?case using p by (cases "b @ x") auto
    qed auto
    then show ?thesis by (simp add: Contains_def)
  qed
  have m: "Contains (''follower read lease expired, leader='' @ leader r) (''leader='' @ leader r)"
    "Contains (''not leader, leader='' @ leader r @ s) (''leader='' @ leader r)" for s
    using c [of "''follower read lease expired, ''" "''leader='' @ leader r" "[]"]
      c [of "''not leader, ''" "''leader='' @ leader r" s] by simp_all
  show ?thesis
    using m by (auto simp: Server_Get_def LeaderID_def HasReadLease_def IsLeader_def maxLeaseAge_def
        split: sum.splits if_splits)
qed

subsection \<open>Writes\<close>

lemma Propose_leader:
  assumes "state r = Leader"
  shows "Propose b r = (saveLog (r\<lparr>log_r := log_r r @ [\<lparr>Index = lastLogIndex r + 1, Term = term_r r, Data = b\<rparr>]\<rparr>),
           Inr (lastLogIndex r + 1))"
  using assms by (simp add: Propose_def Let_def)

text \<open>What an accepted command leaves behind.\<close>

definition proposed :: "bytes \<Rightarrow> raft \<Rightarrow> raft \<Rightarrow> bool" where
  "proposed b r r' \<longleftrightarrow> (\<exists>d. r' = r\<lparr>log_r := log_r r @ [\<lparr>Index = lastLogIndex r + 1, Term = term_r r, Data = b\<rparr>],
     fs_r := d, nextChan := Suc (nextChan r), waiters := (waiters r)(lastLogIndex r + 1 \<mapsto> nextChan r)\<rparr>)"

lemma proposeAndWait_leader:
  assumes "IsLeader r" and "lastApplied r \<le> lastLogIndex r"
  obtains r' where "proposeAndWait b r = (r', Inr (nextChan r))" "proposed b r r'"
proof -
  let ?r = "r\<lparr>log_r := log_r r @ [\<lparr>Index = lastLogIndex r + 1, Term = term_r r, Data = b\<rparr>]\<rparr>"
  have "proposeAndWait b r = (fst (proposeAndWait b r), Inr (nextChan r)) \<and> proposed b r (fst (proposeAndWait b r))"
    using assms unfolding proposed_def
    by (intro conjI exI [of _ "fst (log_SaveAll (logPath ?r) (log_r ?r) (fs_r r))"])
       (simp_all add: proposeAndWait_def Propose_leader IsLeader_def AppliedWait_def saveLog_def Let_def)
  then show thesis using that by blast
qed

text \<open>Reads of the store that do not fail.\<close>

definition pebble_reads :: "'d pebble \<Rightarrow> bool" where
  "pebble_reads P \<longleftrightarrow> (\<forall>k d e. db_Get P k d \<noteq> GetErr e)"

lemma kv_Get_view:
  "pebble_ok P view \<Longrightarrow> pebble_reads P \<Longrightarrow> kv_Get P k d = Inr (case view d k of None \<Rightarrow> ([], False) | Some v \<Rightarrow> (v, True))"
  unfolding pebble_ok_def pebble_reads_def kv_Get_def by (force split: pebbleGet.splits)

lemma single_node_commits:
  assumes "proposed b r r1" and "state r = Leader" and "peers r = []" and "wf_log r" and "commitIndex r \<le> lastLogIndex r"
  shows "fst (sendHeartbeats r1) = r1\<lparr>commitIndex := lastLogIndex r + 1\<rparr>"
    and "entryAt r1 (lastLogIndex r + 1) = Some \<lparr>Index = lastLogIndex r + 1, Term = term_r r, Data = b\<rparr>"
    and "lastLogIndex r1 = lastLogIndex r + 1"
proof -
  let ?e = "\<lparr>Index = lastLogIndex r + 1, Term = term_r r, Data = b\<rparr>"
  have l: "log_r r1 = log_r r @ [?e]" "logBaseIndex r1 = logBaseIndex r" "commitIndex r1 = commitIndex r"
    "state r1 = Leader" "peers r1 = []" "term_r r1 = term_r r"
    using assms(1-3) by (auto simp: proposed_def)
  show last: "lastLogIndex r1 = lastLogIndex r + 1" by (simp add: lastLogIndex_def l)
  show e: "entryAt r1 (lastLogIndex r + 1) = Some ?e"
    using assms(4) by (simp add: entryAt_eq l lastLogIndex_wf nth_append)
  have "commitLoop r1 (lastLogIndex r + 1) = lastLogIndex r + 1"
    using assms(5) by (subst commitLoop.simps) (simp add: e l majority_def replicas_def)
  then show "fst (sendHeartbeats r1) = r1\<lparr>commitIndex := lastLogIndex r + 1\<rparr>"
    by (simp add: sendHeartbeats_def updateCommitIndexLocked_def l last Let_def)
qed

text \<open>One sweep of the applier over one new entry that is no configuration change.\<close>

lemma apply_one:
  assumes "lastApplied r = n" and "commitIndex r = n + 1" and "entryAt r (n + 1) = Some e"
    and "\<And>q. handleConfigChangeIfNeeded now e q = q"
  shows "runApplier now sn r = applyEnd now sn (applySend e (r\<lparr>lastApplied := n + 1\<rparr>))"
proof -
  let ?r = "applyEnd now sn (applySend e (r\<lparr>lastApplied := n + 1\<rparr>))"
  have "applyBegin now r = (r\<lparr>lastApplied := n + 1\<rparr>, Some e)"
    using assms by (simp add: applyBegin_def Let_def)
  moreover have "applyBegin now ?r = (?r, None)" using assms(2) by (simp add: applyBegin_def)
  ultimately show ?thesis using runApplier_step runApplier_stop by metis
qed

lemma put_no_config: "handleConfigChangeIfNeeded now \<lparr>Index = i, Term = t, Data = encodePutCmd k v\<rparr> r = r"
  using Unmarshal_Command_config [of 0 k v] by (simp add: handleConfigChangeIfNeeded_def encodePutCmd_def int64_range_def)

lemma single_node_write:
  fixes now now' :: time and k v :: bytes and sn :: "int \<Rightarrow> error + bytes"
  assumes P: "pebble_ok P view" "pebble_writes P" "pebble_reads P"
    and r: "IsLeader r" "peers r = []" "wf_log r" "wf_waiters r" "applyCh r = []"
    and idle: "lastApplied r = lastLogIndex r" "commitIndex r = lastLogIndex r"
  defines "r1 \<equiv> fst (Server_Put k v r)"
  defines "r2 \<equiv> fst (sendHeartbeats r1)"
  defines "r3 \<equiv> runApplier now sn r2"
  shows "\<exists>ch. snd (Server_Put k v r) = Inr ch \<and> \<not> acknowledged ch r1 \<and> acknowledged ch r3 \<and>
         Server_Get P now' k False r3 (applyLoop P (applyCh r3) d) = Inr (v, True) \<and>
         state r3 = Leader \<and> id_r r3 = id_r r \<and> leader r3 = leader r \<and> peers r3 = peers r \<and> term_r r3 = term_r r"
proof -
  let ?b = "encodePutCmd k v" and ?n = "lastLogIndex r"
  let ?e = "\<lparr>Index = ?n + 1, Term = term_r r, Data = ?b\<rparr>"
  have "lastApplied r \<le> lastLogIndex r" using idle(1) by simp
  from proposeAndWait_leader [OF r(1) this, of ?b] obtain r' where
    r': "proposeAndWait ?b r = (r', Inr (nextChan r))" "proposed ?b r r'" .
  have p: "Server_Put k v r = (r1, Inr (nextChan r))" "proposed ?b r r1"
    using r' r(1) by (simp_all add: r1_def Server_Put_def)
  then have f1: "closed r1 = closed r" "waiters r1 (?n + 1) = Some (nextChan r)" "lastApplied r1 = ?n"
    "applyCh r1 = []" "state r1 = Leader" "\<not> removedFromCluster r1"
    using idle(1) r(1,5) by (auto simp: proposed_def IsLeader_def)
  have L: "state r = Leader" using r(1) by (simp add: IsLeader_def)
  have "commitIndex r \<le> lastLogIndex r" using idle(2) by simp
  note c = single_node_commits [OF p(2) L r(2,3) this]
  have r2: "r2 = r1\<lparr>commitIndex := ?n + 1\<rparr>" using c(1) by (simp add: r2_def)
  have "entryAt r2 (?n + 1) = Some ?e" using c(2) entryAt_cong [of r2 r1] by (simp add: r2)
  then have r3: "r3 = applyEnd now sn (applySend ?e (r2\<lparr>lastApplied := ?n + 1\<rparr>))"
    unfolding r3_def using f1(3) by (intro apply_one) (simp_all add: r2 put_no_config)
  have "nextChan r \<notin> closed r" using r(4) by (auto simp: wf_waiters_def)
  then have "\<not> acknowledged (nextChan r) r1" "acknowledged (nextChan r) r3"
    using f1(1,2) by (simp_all add: acknowledged_def r3 closeWaiter_def applySend_def r2)
  moreover have "IsLeader r3" using f1(5,6) by (simp add: IsLeader_def r3 applySend_def r2)
  moreover have "applyCh r3 = [?e]" using f1(4) by (simp add: r3 r2)
  then have "view (applyLoop P (applyCh r3) d) k = Some v"
    by (simp add: applyLoop_view [OF P(1,2)] spec_state_def commands_roundtrip_op)
  moreover have "state r3 = Leader \<and> id_r r3 = id_r r \<and> leader r3 = leader r \<and> peers r3 = peers r \<and> term_r r3 = term_r r"
    using f1(5) p(2) by (auto simp: r3 r2 applySend_def proposed_def)
  ultimately show ?thesis using p(1) kv_Get_view [OF P(1,3)] by (simp add: Server_Get_def)
qed

text \<open>A write can be read. On a cluster of one node that is idle, a put is accepted and
  not yet acknowledged; after a heartbeat has committed the entry and the applier and the
  daemon's loop have run, it is acknowledged, and a read at the node returns the value
  written.\<close>

theorem single_node_write_read:
  fixes now now' :: time and k v :: bytes and sn :: "int \<Rightarrow> error + bytes"
  assumes P: "pebble_ok P view" "pebble_writes P" "pebble_reads P"
    and r: "IsLeader r" "peers r = []" "wf_log r" "wf_waiters r" "applyCh r = []"
    and idle: "lastApplied r = lastLogIndex r" "commitIndex r = lastLogIndex r"
  defines "r1 \<equiv> fst (Server_Put k v r)"
  defines "r2 \<equiv> fst (sendHeartbeats r1)"
  defines "r3 \<equiv> runApplier now sn r2"
  shows "\<exists>ch. snd (Server_Put k v r) = Inr ch \<and> \<not> acknowledged ch r1 \<and> acknowledged ch r3 \<and>
         Server_Get P now' k False r3 (applyLoop P (applyCh r3) d) = Inr (v, True)"
  using single_node_write [OF assms(1-10), of k v now sn now' d] by (auto simp: r1_def r2_def r3_def)

text \<open>A leader without peers and with nothing to do.\<close>

definition soloLeader :: raft where
  "soloLeader = (replica ''n1'')\<lparr>state := Leader, lastApplied := 2\<rparr>"

lemma memPebble_reads: "pebble_reads memPebble"
  by (simp add: pebble_reads_def memPebble_def split: option.split)

lemma soloLeader_facts:
  "IsLeader soloLeader" "peers soloLeader = []" "wf_log soloLeader" "wf_waiters soloLeader" "applyCh soloLeader = []"
  "lastApplied soloLeader = lastLogIndex soloLeader" "commitIndex soloLeader = lastLogIndex soloLeader"
proof -
  show "wf_log soloLeader"
    using replica_facts(1) [of "''n1''"] by (auto simp: soloLeader_def fresh_node_def wf_log_def)
  show "IsLeader soloLeader" "peers soloLeader = []" "wf_waiters soloLeader" "applyCh soloLeader = []"
    "lastApplied soloLeader = lastLogIndex soloLeader" "commitIndex soloLeader = lastLogIndex soloLeader"
    by (simp_all add: soloLeader_def IsLeader_def replica_def newRaft_def wf_waiters_def lastLogIndex_def)
qed

theorem single_node_write_read_witness:
  "let r1 = fst (Server_Put ''k'' ''v'' soloLeader); r3 = runApplier 5 (\<lambda>i. Inr []) (fst (sendHeartbeats r1)) in
   Server_Get memPebble 6 ''k'' False r3 (applyLoop memPebble (applyCh r3) []) = Inr (''v'', True)"
  using single_node_write_read [OF memPebble_ok memPebble_writes memPebble_reads soloLeader_facts,
      where k = "''k''" and v = "''v''" and now = 5 and now' = 6 and sn = "\<lambda>i. Inr []" and d = "[]"]
  by (auto simp: Let_def)

subsection \<open>An acknowledged write that is lost\<close>

text \<open>A leader of three nodes whose new entry is replaced by the entry of a newer leader.\<close>

definition oldLeader :: raft where
  "oldLeader = (replica ''n1'')\<lparr>state := Leader, lastApplied := 2, peers := [''n2'', ''n3'']\<rparr>"

definition overwrite3 :: AppendEntriesRequest where
  "overwrite3 = \<lparr>ae_Term = 2, ae_LeaderId = ''n2'', ae_PrevLogIndex = 2, ae_PrevLogTerm = 1,
     ae_Entries = [\<lparr>pe_Index = 3, pe_Term = 2, pe_Data = encodePutCmd ''other'' ''x''\<rparr>], ae_LeaderCommit = 3\<rparr>"

text \<open>C31: the channel of \<^verbatim>\<open>AppliedWait\<close> is found by index alone. A leader accepts a put at
  index 3 and loses its leadership; the new leader's entry at index 3 replaces the command
  and is committed and applied; that closes the channel, so the put is acknowledged although
  the command is nowhere applied.\<close>

theorem lost_put_acknowledged:
  "let (r1, res) = Server_Put k v oldLeader;
       r2 = fst (AppendEntries 7 overwrite3 r1);
       r3 = runApplier 8 sn r2
   in res = Inr 0 \<and> acknowledged 0 r3 \<and> map entryOp (applyCh r3) = [PutOp ''other'' ''x'']"
proof -
  let ?e = "\<lparr>Index = 3, Term = 2, Data = encodePutCmd ''other'' ''x''\<rparr>"
  have "IsLeader oldLeader" "lastApplied oldLeader \<le> lastLogIndex oldLeader"
    by (simp_all add: oldLeader_def IsLeader_def replica_def newRaft_def lastLogIndex_def)
  from proposeAndWait_leader [OF this, of "encodePutCmd k v"] obtain r1 where
    r1: "proposeAndWait (encodePutCmd k v) oldLeader = (r1, Inr (nextChan oldLeader))"
    "proposed (encodePutCmd k v) oldLeader r1" .
  have o: "nextChan oldLeader = 0" "lastLogIndex oldLeader = 2" "term_r oldLeader = 1"
    by (simp_all add: oldLeader_def replica_def newRaft_def lastLogIndex_def)
  have put: "Server_Put k v oldLeader = (r1, Inr 0)"
    using r1(1) o(1) \<open>IsLeader oldLeader\<close> by (simp add: Server_Put_def)
  have f1: "log_r r1 = log_r (replica ''n1'') @ [\<lparr>Index = 3, Term = 1, Data = encodePutCmd k v\<rparr>]"
    "logBaseIndex r1 = 0" "commitIndex r1 = 2" "lastApplied r1 = 2" "term_r r1 = 1" "waiters r1 3 = Some 0"
    "applyCh r1 = []" "isKnownNode r1 ''n2''"
    using r1(2) o
    by (auto simp: proposed_def oldLeader_def replica_fields isKnownNode_def)
  define r2 where "r2 = fst (AppendEntries 7 overwrite3 r1)"
  have f2: "log_r r2 = log_r (replica ''n1'') @ [?e]" "logBaseIndex r2 = 0" "commitIndex r2 = 3"
    "lastApplied r2 = 2" "waiters r2 3 = Some 0" "applyCh r2 = []"
    using f1 by (simp_all add: r2_def AppendEntries_def overwrite3_def Let_def prevMatches_def entryAt_eq replica_fields
        int_of32_def toLogEntry_def followCommit_def lastLogIndex_def nth_append)
  have "entryAt r2 3 = Some ?e" using f2(1,2) by (simp add: entryAt_eq replica_fields)
  then have r3: "runApplier 8 sn r2 = applyEnd 8 sn (applySend ?e (r2\<lparr>lastApplied := 3\<rparr>))"
    using apply_one [of r2 2 ?e 8 sn] f2(3,4) by (simp add: put_no_config)
  then show ?thesis
    using f2(5,6) commands_roundtrip_op(1) put
    by (simp add: r2_def [symmetric] acknowledged_def closeWaiter_def applySend_def)
qed

end
