(* ===== verification/Addresses.thy ===== *)
theory Addresses
  imports Go_Text
begin

section \<open>Node addresses\<close>

text \<open>
  \<^verbatim>\<open>net.SplitHostPort\<close> and what the sources build on it: \<^verbatim>\<open>internal/utils\<close>, the address
  helpers of \<^verbatim>\<open>internal/api/server.go\<close>, and the leader addresses of the client library
  (\<^verbatim>\<open>client/client.go\<close>) and of the command line client (\<^verbatim>\<open>cmd/mimorictl/client.go\<close>), whose
  functions have the same names and get the suffix \<open>_ctl\<close> here. A node serves gRPC on a port
  and HTTP on the next one.
\<close>

subsection \<open>Host and port\<close>

text \<open>64-bit wrap-around of Go's \<^verbatim>\<open>int\<close>.\<close>

definition wrap64 :: "int \<Rightarrow> int" where
  "wrap64 i = (i + 2 ^ 63) mod 2 ^ 64 - 2 ^ 63"

fun IndexByte :: "string \<Rightarrow> char \<Rightarrow> nat option" where
  "IndexByte [] c = None"
| "IndexByte (d # s) c = (if d = c then Some 0 else map_option Suc (IndexByte s c))"

fun LastIndexByte :: "string \<Rightarrow> char \<Rightarrow> nat option" where
  "LastIndexByte [] c = None"
| "LastIndexByte (d # s) c =
     (case LastIndexByte s c of Some i \<Rightarrow> Some (Suc i) | None \<Rightarrow> if d = c then Some 0 else None)"

text \<open>\<open>None\<close> is an error.\<close>

definition SplitHostPort :: "string \<Rightarrow> (string \<times> string) option" where
  "SplitHostPort hostport =
     (case LastIndexByte hostport (CHR '':'') of
        None \<Rightarrow> None
      | Some i \<Rightarrow>
          (case (if hd hostport = CHR ''['' then
                   (case IndexByte hostport (CHR '']'') of
                      None \<Rightarrow> None
                    | Some e \<Rightarrow> if Suc e = i then Some (take (e - 1) (tl hostport), 1, Suc e) else None)
                 else
                   (let host = take i hostport in
                    if CHR '':'' \<in> set host then None else Some (host, 0, 0))) of
             None \<Rightarrow> None
           | Some (host, j, k) \<Rightarrow>
               if CHR ''['' \<in> set (drop j hostport) \<or> CHR '']'' \<in> set (drop k hostport) then None
               else Some (host, drop (Suc i) hostport)))"

definition ParseHostPort :: "string \<Rightarrow> string \<times> int" where
  "ParseHostPort addr =
     (case (case SplitHostPort addr of
              Some hp \<Rightarrow> Some hp
            | None \<Rightarrow> if addr \<noteq> [] \<and> hd addr = CHR '':'' then Some ([], tl addr) else None) of
        None \<Rightarrow> ([], 0)
      | Some (host, portStr) \<Rightarrow> (host, case Atoi portStr of None \<Rightarrow> 0 | Some p \<Rightarrow> p))"

definition parsePort :: "string \<Rightarrow> int" where
  "parsePort addr = snd (ParseHostPort addr)"

text \<open>The text \<^verbatim>\<open>host:port\<close> that \<^verbatim>\<open>fmt.Sprintf("%s:%d", ...)\<close> gives.\<close>

definition hostPort :: "string \<Rightarrow> int \<Rightarrow> string" where
  "hostPort host port = host @ '':'' @ Itoa port"

subsection \<open>Addresses of the HTTP side\<close>

definition leaderHTTPBase :: "string \<Rightarrow> string" where
  "leaderHTTPBase leaderID =
     (let (h, port) = ParseHostPort leaderID; host = (if h = [] then ''localhost'' else h)
      in if port = 0 then [] else ''http://'' @ hostPort host (wrap64 (port + 1)))"

text \<open>The digits that \<^verbatim>\<open>^mimori-node(\d+):\d+$\<close> captures.\<close>

definition dockerNode :: "string \<Rightarrow> string option" where
  "dockerNode s =
     (if \<not> HasPrefix s ''mimori-node'' then None
      else
        let r = drop 11 s; ds = takeWhile is_digit r; rest = dropWhile is_digit r
        in if ds \<noteq> [] \<and> rest \<noteq> [] \<and> hd rest = CHR '':'' \<and> all_digits (tl rest) then Some ds else None)"

text \<open>What the sources read of an HTTP request.\<close>

record httpRequest =
  rq_Method :: string
  rq_Path :: string
  rq_RawQuery :: string
  rq_Host :: string
  rq_TLS :: bool
  rq_ForwardedProto :: string
  rq_ContentType :: string
  rq_Body :: "string + string"

definition publicHTTPBaseForNodeID :: "httpRequest \<Rightarrow> string \<Rightarrow> string" where
  "publicHTTPBaseForNodeID r nodeID =
     (let h0 = (case SplitHostPort (rq_Host r) of None \<Rightarrow> [] | Some (h, p) \<Rightarrow> h);
          h1 = (if h0 = [] then rq_Host r else h0);
          host = (if h1 = [] then ''localhost'' else h1);
          s0 = (if rq_TLS r then ''https'' else ''http'');
          scheme = (if rq_ForwardedProto r \<noteq> [] then rq_ForwardedProto r else s0);
          local = (let port = parsePort nodeID in
                   if port = 0 then [] else scheme @ ''://'' @ hostPort host (wrap64 (port + 1)))
      in case dockerNode nodeID of
           None \<Rightarrow> local
         | Some ds \<Rightarrow>
             let n = (case Atoi ds of Some n \<Rightarrow> n | None \<Rightarrow> 2 ^ 63 - 1) in
             if 0 < n then
               (let grpcHostPort = wrap64 (4000 + wrap64 (2 * (n - 1))) in
                scheme @ ''://'' @ hostPort host (wrap64 (grpcHostPort + 1)))
             else local)"

definition normalizeNodeIDForHost :: "string \<Rightarrow> string \<Rightarrow> string" where
  "normalizeNodeIDForHost nodeID host =
     (let (h, p) = ParseHostPort nodeID in
      if p = 0 then nodeID
      else if h \<noteq> [] then nodeID
      else hostPort (if host = [] then ''localhost'' else host) p)"

definition requestHost :: "httpRequest \<Rightarrow> string" where
  "requestHost r =
     (case SplitHostPort (rq_Host r) of
        Some (h, p) \<Rightarrow> if h \<noteq> [] then h else if rq_Host r \<noteq> [] then rq_Host r else ''localhost''
      | None \<Rightarrow> if rq_Host r \<noteq> [] then rq_Host r else ''localhost'')"

subsection \<open>Leader addresses of the clients\<close>

definition getHTTPAddr :: "string \<Rightarrow> string" where
  "getHTTPAddr grpcAddr =
     (case Split grpcAddr (CHR '':'') of
        [host, p] \<Rightarrow> (case Atoi p of None \<Rightarrow> grpcAddr | Some port \<Rightarrow> hostPort host (wrap64 (port + 1)))
      | _ \<Rightarrow> grpcAddr)"

definition getHTTPAddr_ctl :: "string \<Rightarrow> string" where
  "getHTTPAddr_ctl grpcAddr =
     (let (host, portStr, ok) = Cut grpcAddr (CHR '':'') in
      if \<not> ok then grpcAddr
      else case Atoi portStr of None \<Rightarrow> grpcAddr | Some port \<Rightarrow> hostPort host (wrap64 (port + 1)))"

definition baseHostOf :: "string \<Rightarrow> string" where
  "baseHostOf baseAddr = (let (h, p, ok) = Cut baseAddr (CHR '':'') in if ok then h else [])"

definition useBaseHost :: "string \<Rightarrow> bool" where
  "useBaseHost baseHost \<longleftrightarrow> baseHost = [] \<or> baseHost = ''localhost'' \<or> HasPrefix baseHost ''127.''"

definition normalizeLeaderAddr :: "string \<Rightarrow> string \<Rightarrow> string" where
  "normalizeLeaderAddr baseAddr hint =
     (let leaderID = TrimSpace hint; baseHost = baseHostOf baseAddr;
          base = (useBaseHost baseHost \<and> baseHost \<noteq> [])
      in if leaderID = [] then []
         else if HasPrefix leaderID '':'' then (if base then baseHost @ leaderID else leaderID)
         else if \<not> Contains leaderID '':'' then
           (if base then baseHost @ '':'' @ leaderID else '':'' @ leaderID)
         else
           let (leaderHost, port, ok) = Cut leaderID (CHR '':'') in
           if \<not> ok \<or> port = [] then (if base then baseHost else leaderID)
           else if base then baseHost @ '':'' @ port
           else if leaderHost = [] \<and> baseHost \<noteq> [] then baseHost @ '':'' @ port
           else leaderID)"

definition normalizeLeaderAddr_ctl :: "string \<Rightarrow> string \<Rightarrow> string" where
  "normalizeLeaderAddr_ctl baseAddr hint =
     (let leaderID = TrimSpace hint; baseHost = baseHostOf baseAddr;
          base = (useBaseHost baseHost \<and> baseHost \<noteq> [])
      in if leaderID = [] then []
         else if HasPrefix leaderID '':'' then (if base then baseHost @ leaderID else leaderID)
         else if \<not> Contains leaderID '':'' then
           (if base then baseHost @ '':'' @ leaderID else '':'' @ leaderID)
         else
           let (leaderHost, port, ok) = Cut leaderID (CHR '':'') in
           if \<not> ok \<or> port = [] then (if base then baseHost else leaderID)
           else if base \<and> HasPrefix leaderHost ''mimori-node'' then
             (if Atoi port = Some 4000 then
                (let externalPort =
                       (if leaderHost = ''mimori-node1'' then 4000
                        else if leaderHost = ''mimori-node2'' then 4002
                        else if leaderHost = ''mimori-node3'' then 4004 else 4000)
                 in hostPort baseHost externalPort)
              else baseHost @ '':'' @ port)
           else if base then baseHost @ '':'' @ port
           else if leaderHost = [] \<and> baseHost \<noteq> [] then baseHost @ '':'' @ port
           else leaderID)"

subsection \<open>Parsing addresses back\<close>

lemma LastIndexByte_none: "LastIndexByte s c = None \<longleftrightarrow> c \<notin> set s"
  by (induction s) (auto split: option.split)

lemma LastIndexByte_app: "c \<notin> set t \<Longrightarrow> LastIndexByte (s @ c # t) c = Some (length s)"
  by (induction s) (auto simp: LastIndexByte_none split: option.split)

lemma IndexByte_app: "c \<notin> set s \<Longrightarrow> IndexByte (s @ c # t) c = Some (length s)"
  by (induction s) auto

lemma Itoa_nonneg: "0 \<le> p \<Longrightarrow> list_all is_digit (Itoa p)"
  by (simp add: Itoa_def nat_dec_digits)

lemma digit_neq: "is_digit c \<Longrightarrow> c \<noteq> CHR '':'' \<and> c \<noteq> CHR ''['' \<and> c \<noteq> CHR '']''"
  by (auto simp: is_digit_def)

lemma Itoa_plain: "0 \<le> p \<Longrightarrow> {CHR '':'', CHR ''['', CHR '']''} \<inter> set (Itoa p) = {}"
  using Itoa_nonneg [of p] digit_neq by (auto simp: list_all_iff)

text \<open>A host name without the special characters.\<close>

definition plain_host :: "string \<Rightarrow> bool" where
  "plain_host h \<longleftrightarrow> {CHR '':'', CHR ''['', CHR '']''} \<inter> set h = {}"

lemma SplitHostPort_plain:
  assumes "plain_host h" and "plain_host p"
  shows "SplitHostPort (h @ CHR '':'' # p) = Some (h, p)"
proof -
  have "hd (h @ CHR '':'' # p) \<noteq> CHR ''[''" using assms(1) by (cases h) (auto simp: plain_host_def)
  then show ?thesis
    using assms LastIndexByte_app [of "CHR '':''" p h] by (auto simp: SplitHostPort_def plain_host_def)
qed

lemma SplitHostPort_bracket:
  assumes "{CHR ''['', CHR '']''} \<inter> set h = {}" and "plain_host p"
  shows "SplitHostPort (''['' @ h @ '']:'' @ p) = Some (h, p)"
proof -
  let ?s = "CHR ''['' # h @ CHR '']'' # CHR '':'' # p"
  have "LastIndexByte ?s (CHR '':'') = Some (length h + 2)"
    using LastIndexByte_app [of "CHR '':''" p "CHR ''['' # h @ [CHR '']'']"] assms(2)
    by (simp add: plain_host_def)
  moreover have "IndexByte ?s (CHR '']'') = Some (length h + 1)"
    using IndexByte_app [of "CHR '']''" "CHR ''['' # h" "CHR '':'' # p"] assms(1) by simp
  ultimately show ?thesis using assms by (auto simp: SplitHostPort_def plain_host_def)
qed

lemma ParseHostPort_text:
  assumes "0 \<le> p" and "int64_range p"
  shows "plain_host h \<Longrightarrow> ParseHostPort (hostPort h p) = (h, p)"
    and "{CHR ''['', CHR '']''} \<inter> set v = {} \<Longrightarrow> ParseHostPort (''['' @ v @ '']:'' @ Itoa p) = (v, p)"
  using Itoa_plain [OF assms(1)] SplitHostPort_plain [of h "Itoa p"] SplitHostPort_bracket [of v "Itoa p"]
    Atoi_Itoa [OF assms(2)]
  by (simp_all add: ParseHostPort_def hostPort_def plain_host_def)

lemma Split_two: "c \<notin> set h \<Longrightarrow> c \<notin> set p \<Longrightarrow> Split (h @ c # p) c = [h, p]"
proof -
  have "c \<notin> set p \<Longrightarrow> Split p c = [p]" for p by (induction p) auto
  then show "c \<notin> set h \<Longrightarrow> c \<notin> set p \<Longrightarrow> ?thesis" by (induction h) auto
qed

lemma Cut_app: "c \<notin> set h \<Longrightarrow> Cut (h @ c # p) c = (h, p, True)"
  by (induction h) auto

lemma wrap64_id: "int64_range i \<Longrightarrow> wrap64 i = i"
  by (simp add: wrap64_def int64_range_def)

lemma getHTTPAddr_text:
  assumes "plain_host h" and "0 < p" and "p < 2 ^ 63 - 1"
  shows "getHTTPAddr (hostPort h p) = hostPort h (p + 1)" and "getHTTPAddr_ctl (hostPort h p) = hostPort h (p + 1)"
proof -
  have r: "int64_range p" "int64_range (p + 1)" using assms(2,3) by (simp_all add: int64_range_def)
  have c: "CHR '':'' \<notin> set h" "CHR '':'' \<notin> set (Itoa p)"
    using assms(1) Itoa_plain [of p] assms(2) by (auto simp: plain_host_def)
  have s: "hostPort h p = h @ CHR '':'' # Itoa p" by (simp add: hostPort_def)
  show "getHTTPAddr (hostPort h p) = hostPort h (p + 1)" "getHTTPAddr_ctl (hostPort h p) = hostPort h (p + 1)"
    unfolding getHTTPAddr_def getHTTPAddr_ctl_def s
    using Split_two [OF c] Cut_app [OF c(1), of "Itoa p"] Atoi_Itoa [OF r(1)] wrap64_id [OF r(2)] by simp_all
qed



text \<open>Outside the Docker network a leader named \<^verbatim>\<open>mimori-node2:4000\<close> is published on
  port 4002 of the local host, and \<^verbatim>\<open>mimori-node3:4000\<close> on 4004. The command line client maps
  these names; the client library keeps port 4000, which is the port of the first node,
  although the comment where it calls the function says that the mapping of Docker host names
  works.\<close>

theorem docker_hints_differ:
  assumes "useBaseHost b" and "b \<noteq> []" and "CHR '':'' \<notin> set b"
  shows "normalizeLeaderAddr_ctl (b @ '':4000'') ''mimori-node2:4000'' = b @ '':4002'' \<and>
         normalizeLeaderAddr_ctl (b @ '':4000'') ''mimori-node3:4000'' = b @ '':4004'' \<and>
         normalizeLeaderAddr (b @ '':4000'') ''mimori-node2:4000'' = b @ '':4000'' \<and>
         normalizeLeaderAddr (b @ '':4000'') ''mimori-node3:4000'' = b @ '':4000''"
proof -
  have b: "baseHostOf (b @ '':4000'') = b" using Cut_app [OF assms(3), of "''4000''"] by (simp add: baseHostOf_def)
  have t: "TrimSpace ''mimori-node2:4000'' = ''mimori-node2:4000''"
    "TrimSpace ''mimori-node3:4000'' = ''mimori-node3:4000''"
    by (simp_all add: TrimSpace_def trimLeftSeqs.simps space_seqs_def)
  have a: "Atoi ''4000'' = Some 4000"
    by (simp add: Atoi_def dec_val_def digit_val_def all_digits_def is_digit_def int64_range_def)
  have i: "Itoa 4002 = ''4002''" "Itoa 4004 = ''4004''"
    by (simp_all add: Itoa_def nat_dec.simps digit_char_def char_of_def bit_0)
  show ?thesis using assms(1,2)
    unfolding normalizeLeaderAddr_def normalizeLeaderAddr_ctl_def b t Let_def
    by (simp add: Contains_def a i hostPort_def)
qed

theorem docker_hints_differ_witness:
  "normalizeLeaderAddr ''localhost:4000'' ''mimori-node2:4000'' = ''localhost:4000'' \<and>
   normalizeLeaderAddr_ctl ''localhost:4000'' ''mimori-node2:4000'' = ''localhost:4002''"
  using docker_hints_differ [of "''localhost''"] by (simp add: useBaseHost_def)

end
