(* ===== verification/Http_Api.thy ===== *)
theory Http_Api
  imports KV_Service Addresses Raft_Admin "HOL-Library.Product_Lexorder" "HOL-Library.Multiset"
begin

section \<open>The HTTP side\<close>

text \<open>
  The HTTP handlers of \<^verbatim>\<open>internal/api/server.go\<close>: health, readiness, status, forced
  snapshots, and the REST interface of the dashboard. A handler maps a request to a response;
  a write that has to wait gives the channel and the response that follows when the channel is
  closed. A follower forwards what only the leader can do; the forwarded call is an argument.
  The bodies are JSON texts, with the keys of a Go map in order.
\<close>

subsection \<open>Requests and responses\<close>

record httpResponse =
  rs_Status :: int
  rs_Type :: string
  rs_Body :: string

datatype reply = Now httpResponse | After nat httpResponse

definition newline :: string where
  "newline = [CHR 0x0A]"

definition httpError :: "string \<Rightarrow> int \<Rightarrow> httpResponse" where
  "httpError msg status = \<lparr>rs_Status = status, rs_Type = ''text/plain; charset=utf-8'', rs_Body = msg @ newline\<rparr>"

definition jsonReply :: "int \<Rightarrow> json \<Rightarrow> httpResponse" where
  "jsonReply status v = \<lparr>rs_Status = status, rs_Type = ''application/json'', rs_Body = json_print v @ newline\<rparr>"

text \<open>\<^verbatim>\<open>url.Values.Get\<close> on the raw query.\<close>

fun QueryUnescape :: "string \<Rightarrow> string option" where
  "QueryUnescape [] = Some []"
| "QueryUnescape (c # s) =
     (if c = CHR ''%'' then
        (case s of
           a # b # t \<Rightarrow>
             (case (hex_val a, hex_val b) of
                (Some x, Some y) \<Rightarrow> map_option (\<lambda>u. char_of (16 * x + y) # u) (QueryUnescape t)
              | _ \<Rightarrow> None)
         | _ \<Rightarrow> None)
      else map_option (\<lambda>u. (if c = CHR ''+'' then CHR '' '' else c) # u) (QueryUnescape s))"

definition queryGet :: "string \<Rightarrow> string \<Rightarrow> string" where
  "queryGet raw key =
     (let params = List.map_filter (\<lambda>part.
            if Contains part '';'' \<or> part = [] then None
            else let (k, v, ok) = Cut part (CHR ''='') in
                 case (QueryUnescape k, QueryUnescape v) of (Some k', Some v') \<Rightarrow> Some (k', v') | _ \<Rightarrow> None)
          (Split raw (CHR ''&''))
      in case map_of params key of None \<Rightarrow> [] | Some v \<Rightarrow> v)"

text \<open>\<^verbatim>\<open>json.NewDecoder(body).Decode\<close>: the first value of the body, what follows is not read.\<close>

definition Decode :: "(json \<Rightarrow> 'a option) \<Rightarrow> bytes \<Rightarrow> 'a option" where
  "Decode f s = (case parse_value (2 * length s + 2) s of None \<Rightarrow> None | Some (v, rest) \<Rightarrow> f v)"

text \<open>A struct with one string field that matters.\<close>

definition dec_field :: "string list \<Rightarrow> string \<Rightarrow> json \<Rightarrow> string option" where
  "dec_field names f =
     dec_struct names (\<lambda>g v s. if g = f then dec_string v s else map_option (\<lambda>_. s) (dec_string v [])) []"

definition bodyField :: "string list \<Rightarrow> string \<Rightarrow> httpRequest \<Rightarrow> string option" where
  "bodyField names f rq = (case rq_Body rq of Inl err \<Rightarrow> None | Inr b \<Rightarrow> Decode (dec_field names f) b)"

subsection \<open>Errors and forwarding\<close>

definition writeError :: "grpcErr \<Rightarrow> httpResponse" where
  "writeError err =
     (case err of
        Status c msg \<Rightarrow>
          jsonReply (case c of FailedPrecondition \<Rightarrow> 412 | NotFound \<Rightarrow> 404 | InvalidArgument \<Rightarrow> 400 | OtherCode \<Rightarrow> 500)
            (JObj [(''error'', JStr msg)])
      | PlainErr msg \<Rightarrow> httpError msg 500)"

text \<open>The outcome of the forwarded request: building it fails, sending it fails, or an answer
  with status, content type and body.\<close>

datatype sendResult = BuildErr string | DoErr string | Answer int string string

record proxyRequest =
  px_Method :: string
  px_URL :: string
  px_ContentType :: string
  px_Body :: string

definition proxyToLeader :: "(proxyRequest \<Rightarrow> sendResult) \<Rightarrow> httpRequest \<Rightarrow> raft \<Rightarrow> httpResponse" where
  "proxyToLeader send rq r =
     (if LeaderID r = [] then httpError ''no leader elected'' 503
      else let base = leaderHTTPBase (LeaderID r) in
        if base = [] then httpError ''leader http address unknown'' 502
        else case rq_Body rq of
          Inl err \<Rightarrow> httpError (''read request body: '' @ err) 400
        | Inr body \<Rightarrow>
            let u = base @ rq_Path rq @ (if rq_RawQuery rq \<noteq> [] then ''?'' @ rq_RawQuery rq else []) in
            case send \<lparr>px_Method = rq_Method rq, px_URL = u, px_ContentType = rq_ContentType rq, px_Body = body\<rparr> of
              BuildErr err \<Rightarrow> httpError (''build proxy request: '' @ err) 500
            | DoErr err \<Rightarrow> httpError (''proxy to leader failed: '' @ err) 502
            | Answer status ct b \<Rightarrow> \<lparr>rs_Status = status, rs_Type = ct, rs_Body = b\<rparr>)"

definition writeLeaderJSONError :: "httpRequest \<Rightarrow> int \<Rightarrow> string \<Rightarrow> NodeID \<Rightarrow> httpResponse" where
  "writeLeaderJSONError rq status msg leaderID =
     jsonReply status (JObj [(''error'', JStr msg), (''leader_http'', JStr (publicHTTPBaseForNodeID rq leaderID)),
                           (''leader_id'', JStr leaderID)])"

subsection \<open>Health, status and snapshots\<close>

definition healthz :: "raft \<Rightarrow> httpResponse" where
  "healthz r =
     (let st = getStatus r in
      jsonReply 200 (JObj [(''node_id'', JStr (st_ID st)), (''raft_state'', JStr (st_State st)),
                           (''status'', JStr ''ok''), (''term'', enc_int (st_Term st))]))"

definition ready :: "raft \<Rightarrow> httpResponse" where
  "ready r =
     (let st = getStatus r in
      if st_LeaderID st = [] then
        jsonReply 503 (JObj [(''node_id'', JStr (st_ID st)), (''raft_state'', JStr (st_State st)),
                             (''ready'', JBool False), (''reason'', JStr ''no leader elected'')])
      else
        jsonReply 200 (JObj [(''leader_id'', JStr (st_LeaderID st)), (''node_id'', JStr (st_ID st)),
                             (''raft_state'', JStr (st_State st)), (''ready'', JBool True)]))"

definition enc_Status :: "Status \<Rightarrow> json" where
  "enc_Status st =
     JObj [(''id'', JStr (st_ID st)), (''state'', JStr (st_State st)), (''term'', enc_int (st_Term st)),
           (''leader_id'', JStr (st_LeaderID st)), (''commit_index'', enc_int (st_CommitIndex st)),
           (''last_applied'', enc_int (st_LastApplied st)), (''log_length'', enc_int (st_LogLength st))]"

definition raftStatus :: "raft \<Rightarrow> httpResponse" where
  "raftStatus r = jsonReply 200 (enc_Status (getStatus r))"

definition raftSnapshot :: "time \<Rightarrow> error + bytes \<Rightarrow> httpRequest \<Rightarrow> raft \<Rightarrow> raft \<times> httpResponse" where
  "raftSnapshot unix result rq r =
     (if rq_Method rq \<noteq> ''POST'' then (r, \<lparr>rs_Status = 405, rs_Type = [], rs_Body = []\<rparr>)
      else if \<not> IsLeader r then
        (r, \<lparr>rs_Status = 412, rs_Type = ''text/plain; charset=utf-8'',
            rs_Body = json_print (JObj [(''error'', JStr ''not leader''), (''leader_id'', JStr (LeaderID r))]) @ newline\<rparr>)
      else
        let r1 = ForceSnapshot unix result r in
        (r1, jsonReply 200 (JObj [(''message'', JStr ''snapshot created''), (''raft_status'', enc_Status (getStatus r1)),
                                  (''status'', JStr ''ok'')])))"

subsection \<open>Keys and values\<close>

definition handleGet ::
  "'d pebble \<Rightarrow> time \<Rightarrow> (proxyRequest \<Rightarrow> sendResult) \<Rightarrow> bytes \<Rightarrow> httpRequest \<Rightarrow> raft \<Rightarrow> 'd \<Rightarrow> httpResponse"
where
  "handleGet P now send key rq r d =
     (let allowStale = (queryGet (rq_RawQuery rq) ''allow_stale'' = ''true'') in
      if \<not> IsLeader r \<and> \<not> allowStale then proxyToLeader send rq r
      else case Server_Get P now key allowStale r d of
        Inl err \<Rightarrow> writeError err
      | Inr (val, found) \<Rightarrow> jsonReply 200 (JObj [(''found'', JBool found), (''value'', JStr val)]))"

definition handlePut :: "(proxyRequest \<Rightarrow> sendResult) \<Rightarrow> bytes \<Rightarrow> httpRequest \<Rightarrow> raft \<Rightarrow> raft \<times> reply" where
  "handlePut send key rq r =
     (if \<not> IsLeader r then (r, Now (proxyToLeader send rq r))
      else case bodyField [''value''] ''value'' rq of
        None \<Rightarrow> (r, Now (httpError ''invalid request body'' 400))
      | Some val \<Rightarrow>
          (case Server_Put key val r of
             (r1, Inl err) \<Rightarrow> (r1, Now (writeError err))
           | (r1, Inr ch) \<Rightarrow> (r1, After ch (jsonReply 200 (JObj [(''ok'', JBool True)])))))"

definition handleDelete :: "(proxyRequest \<Rightarrow> sendResult) \<Rightarrow> bytes \<Rightarrow> httpRequest \<Rightarrow> raft \<Rightarrow> raft \<times> reply" where
  "handleDelete send key rq r =
     (if \<not> IsLeader r then (r, Now (proxyToLeader send rq r))
      else case Server_Delete key r of
        (r1, Inl err) \<Rightarrow> (r1, Now (writeError err))
      | (r1, Inr ch) \<Rightarrow> (r1, After ch (jsonReply 200 (JObj [(''deleted'', JBool True)]))))"

definition TrimPrefix :: "string \<Rightarrow> string \<Rightarrow> string" where
  "TrimPrefix s p = (if HasPrefix s p then drop (length p) s else s)"

definition kvRoute ::
  "'d pebble \<Rightarrow> time \<Rightarrow> (proxyRequest \<Rightarrow> sendResult) \<Rightarrow> httpRequest \<Rightarrow> raft \<Rightarrow> 'd \<Rightarrow> raft \<times> reply"
where
  "kvRoute P now send rq r d =
     (let key = TrimPrefix (rq_Path rq) ''/api/kv/'' in
      if key = [] then (r, Now (httpError ''key required'' 400))
      else if rq_Method rq = ''GET'' then (r, Now (handleGet P now send key rq r d))
      else if rq_Method rq = ''PUT'' then handlePut send key rq r
      else if rq_Method rq = ''DELETE'' then handleDelete send key rq r
      else (r, Now (httpError ''method not allowed'' 405)))"

subsection \<open>The cluster\<close>

definition notAllowed :: httpResponse where
  "notAllowed = httpError ''method not allowed'' 405"

definition handleClusterStatus :: "httpRequest \<Rightarrow> raft \<Rightarrow> httpResponse" where
  "handleClusterStatus rq r =
     (if rq_Method rq \<noteq> ''GET'' then notAllowed
      else
        let st = getStatus r; ps = GetPeers r in
        jsonReply 200 (JObj [(''leader_id'', JStr (st_LeaderID st)), (''node_count'', enc_int (int (length ps) + 1)),
                             (''nodes'', JArr (map JStr (st_ID st # ps))), (''term'', enc_int (st_Term st))]))"

definition handleStatus :: "time \<Rightarrow> httpRequest \<Rightarrow> raft \<Rightarrow> httpResponse" where
  "handleStatus now rq r =
     (if rq_Method rq \<noteq> ''GET'' then notAllowed
      else
        let st = getStatus r; ps = GetPeers r in
        jsonReply 200 (JObj [
          (''commit_index'', enc_int (st_CommitIndex st)), (''has_read_lease'', JBool (HasReadLease now r)),
          (''is_leader'', JBool (IsLeader r)), (''last_applied'', enc_int (st_LastApplied st)),
          (''leader_id'', JStr (st_LeaderID st)), (''log_length'', enc_int (st_LogLength st)),
          (''node_id'', JStr (st_ID st)), (''peer_count'', enc_int (int (length ps))),
          (''peers'', JArr (map JStr ps)), (''state'', JStr (st_State st)), (''term'', enc_int (st_Term st))]))"

definition adminReply :: "AdminResponse \<Rightarrow> httpResponse" where
  "adminReply resp =
     jsonReply (if adm_Success resp then 200 else 400)
       (JObj [(''error'', JStr (adm_Error resp)), (''success'', JBool (adm_Success resp))])"

definition handleAddNode ::
  "bool \<Rightarrow> (proxyRequest \<Rightarrow> sendResult) \<Rightarrow> httpRequest \<Rightarrow> raftProc \<Rightarrow> raftProc \<times> outgoing list \<times> httpResponse"
where
  "handleAddNode inTime send rq s =
     (if rq_Method rq \<noteq> ''POST'' then (s, [], notAllowed)
      else if \<not> IsLeader (pr_node s) then (s, [], proxyToLeader send rq (pr_node s))
      else case bodyField [''node_id'', ''addr''] ''node_id'' rq of
        None \<Rightarrow> (s, [], httpError ''invalid request body'' 400)
      | Some nodeID \<Rightarrow>
          if nodeID = [] then (s, [], httpError ''node_id required'' 400)
          else let (s1, out, resp) = AddNode inTime nodeID s in (s1, out, adminReply resp))"

definition handleTransferLeadership ::
  "(proxyRequest \<Rightarrow> sendResult) \<Rightarrow> httpRequest \<Rightarrow> raft \<Rightarrow> effect list \<times> httpResponse"
where
  "handleTransferLeadership send rq r =
     (if rq_Method rq \<noteq> ''POST'' then ([], notAllowed)
      else if \<not> IsLeader r then ([], proxyToLeader send rq r)
      else case bodyField [''target_node_id''] ''target_node_id'' rq of
        None \<Rightarrow> ([], httpError ''invalid request body'' 400)
      | Some target \<Rightarrow>
          if target = [] then ([], httpError ''target_node_id required'' 400)
          else let (fx, resp) = TransferLeadership target r in (fx, adminReply resp))"


text \<open>The list of the nodes: every peer is asked for its status, twice when the first try
  fails; the list is sorted by port and identifier. \<open>poll i base\<close> are the outcomes of the two
  tries at peer \<open>i\<close>.\<close>

record apiStatus =
  as_NodeID :: string
  as_State :: string
  as_Term :: int
  as_IsLeader :: bool

definition dec_bool :: "json \<Rightarrow> bool \<Rightarrow> bool option" where
  "dec_bool v old = (case v of JNull \<Rightarrow> Some old | JBool b \<Rightarrow> Some b | _ \<Rightarrow> None)"

definition put_apiStatus :: "string \<Rightarrow> json \<Rightarrow> apiStatus \<Rightarrow> apiStatus option" where
  "put_apiStatus f v s =
     (if f = ''node_id'' then map_option (\<lambda>x. s\<lparr>as_NodeID := x\<rparr>) (dec_string v (as_NodeID s))
      else if f = ''state'' then map_option (\<lambda>x. s\<lparr>as_State := x\<rparr>) (dec_string v (as_State s))
      else if f = ''term'' then map_option (\<lambda>x. s\<lparr>as_Term := x\<rparr>) (dec_int v (as_Term s))
      else map_option (\<lambda>x. s\<lparr>as_IsLeader := x\<rparr>) (dec_bool v (as_IsLeader s)))"

definition dec_apiStatus :: "json \<Rightarrow> apiStatus option" where
  "dec_apiStatus =
     dec_struct [''node_id'', ''state'', ''term'', ''is_leader''] put_apiStatus
       \<lparr>as_NodeID = [], as_State = [], as_Term = 0, as_IsLeader = False\<rparr>"

record nodeView =
  nv_ID :: string
  nv_State :: string
  nv_Term :: int
  nv_IsLeader :: bool
  nv_Reachable :: bool

definition tryOnce :: "sendResult \<Rightarrow> apiStatus option" where
  "tryOnce res =
     (case res of
        Answer status ct body \<Rightarrow> if status \<noteq> 200 then None else Decode dec_apiStatus body
      | _ \<Rightarrow> None)"

definition peerView :: "(string \<Rightarrow> sendResult \<times> sendResult) \<Rightarrow> NodeID \<Rightarrow> nodeView" where
  "peerView poll p =
     (let base = leaderHTTPBase p;
          v = \<lparr>nv_ID = p, nv_State = ''unknown'', nv_Term = 0, nv_IsLeader = False, nv_Reachable = False\<rparr> in
      if base = [] then v
      else
        let (first, again) = poll base in
        case (case tryOnce first of Some s \<Rightarrow> Some s | None \<Rightarrow> tryOnce again) of
          None \<Rightarrow> v\<lparr>nv_State := ''unreachable''\<rparr>
        | Some s \<Rightarrow> \<lparr>nv_ID = as_NodeID s, nv_State = as_State s, nv_Term = as_Term s,
                    nv_IsLeader = as_IsLeader s, nv_Reachable = True\<rparr>)"

definition nodeViews :: "(string \<Rightarrow> sendResult \<times> sendResult) \<Rightarrow> raft \<Rightarrow> nodeView list" where
  "nodeViews poll r =
     (let st = getStatus r in
      sort_key (\<lambda>v. (parsePort (nv_ID v), nv_ID v))
        (\<lparr>nv_ID = st_ID st, nv_State = st_State st, nv_Term = st_Term st, nv_IsLeader = IsLeader r,
          nv_Reachable = True\<rparr> # map (peerView poll) (GetPeers r)))"

definition enc_nodeView :: "nodeView \<Rightarrow> json" where
  "enc_nodeView v =
     JObj [(''id'', JStr (nv_ID v)), (''is_leader'', JBool (nv_IsLeader v)), (''reachable'', JBool (nv_Reachable v)),
           (''state'', JStr (nv_State v)), (''term'', enc_int (nv_Term v))]"

definition handleClusterNodes :: "(string \<Rightarrow> sendResult \<times> sendResult) \<Rightarrow> httpRequest \<Rightarrow> raft \<Rightarrow> httpResponse" where
  "handleClusterNodes poll rq r =
     (if rq_Method rq \<noteq> ''GET'' then notAllowed
      else jsonReply 200 (JObj [(''nodes'', JArr (map enc_nodeView (nodeViews poll r)))]))"

subsection \<open>Bodies are read back\<close>

lemma parse_value_object:
  assumes "json_ok (JObj ms)" and "2 * length (json_print (JObj ms)) \<le> n" and "ms \<noteq> []"
  shows "parse_value (Suc n) (json_print (JObj ms) @ rest) = Some (JObj ms, rest)"
proof -
  from assms(2) obtain m where n: "n = Suc m" by (cases n) auto
  show ?thesis
  proof (rule parse_value_JObj)
    show "parse_members n (join '','' (map print_member ms) @ CHR ''}'' # rest) = Some (ms, rest)"
      unfolding n
    proof (rule parse_members_print)
      show "2 * length (join '','' (map print_member ms)) + 1 \<le> m" using assms(2) n by simp
      show "parse_value (Suc k) (json_print (snd e) @ rest') = Some (snd e, rest')"
        if "e \<in> set ms" "delim rest'" "2 * length (json_print (snd e)) \<le> k" for e k rest'
        using that assms(1) by (intro parse_value_print) auto
    qed (use assms in auto)
  qed (use assms in auto)
qed

lemma Decode_reply:
  assumes "json_ok (JObj ms)" and "ms \<noteq> []"
  shows "Decode f (rs_Body (jsonReply n (JObj ms))) = f (JObj ms)"
proof -
  let ?s = "json_print (JObj ms) @ newline"
  have "parse_value (Suc (2 * length ?s + 1)) ?s = Some (JObj ms, newline)"
    using assms by (intro parse_value_object) (simp_all del: json_print.simps)
  then show ?thesis by (simp add: Decode_def jsonReply_def del: json_print.simps parse_value.simps)
qed

lemmas fields_eval = field_of_def fold_name_def runes_ascii fold_rune_def char_of_def bit_0

lemma status_fields:
  "list_all (\<lambda>k. field_of [''node_id'', ''state'', ''term'', ''is_leader''] k = None)
     [''commit_index'', ''has_read_lease'', ''last_applied'', ''leader_id'', ''log_length'', ''peer_count'', ''peers'']"
  by (simp add: fields_eval)

text \<open>The status a node reports is what another node reads of it.\<close>

lemma status_read_back:
  assumes "utf8_valid (id_r r)" and "utf8_valid (leader r)" and "list_all utf8_valid (peers r)"
    and "int64_range (term_r r)" and "rq_Method rq = ''GET''"
  shows "tryOnce (Answer (rs_Status (handleStatus now rq r)) ct (rs_Body (handleStatus now rq r))) =
         Some \<lparr>as_NodeID = id_r r, as_State = RaftState_String (state r), as_Term = term_r r, as_IsLeader = IsLeader r\<rparr>"
proof -
  let ?ms = "[(''commit_index'', enc_int (commitIndex r)), (''has_read_lease'', JBool (HasReadLease now r)),
          (''is_leader'', JBool (IsLeader r)), (''last_applied'', enc_int (lastApplied r)),
          (''leader_id'', JStr (leader r)), (''log_length'', enc_int (int (length (log_r r)))),
          (''node_id'', JStr (id_r r)), (''peer_count'', enc_int (int (length (peers r)))),
          (''peers'', JArr (map JStr (peers r))), (''state'', JStr (RaftState_String (state r))), (''term'', enc_int (term_r r))]"
  have h: "handleStatus now rq r = jsonReply 200 (JObj ?ms)"
    using assms(5) by (simp add: handleStatus_def getStatus_def GetPeers_def Let_def)
  have "utf8_valid (RaftState_String (state r))" by (cases "state r") (simp_all add: utf8_valid_ascii)
  then have "json_ok (JObj ?ms)" using assms(1-3) by (simp add: utf8_valid_ascii list_all_iff)
  moreover have "dec_apiStatus (JObj ?ms) =
      Some \<lparr>as_NodeID = id_r r, as_State = RaftState_String (state r), as_Term = term_r r, as_IsLeader = IsLeader r\<rparr>"
    using assms(4) status_fields
    by (simp add: dec_apiStatus_def dec_struct_def put_apiStatus_def dec_string_def dec_bool_def)
  ultimately have "Decode dec_apiStatus (rs_Body (handleStatus now rq r)) =
      Some \<lparr>as_NodeID = id_r r, as_State = RaftState_String (state r), as_Term = term_r r, as_IsLeader = IsLeader r\<rparr>"
    unfolding h by (subst Decode_reply) simp_all
  moreover have "rs_Status (handleStatus now rq r) = 200" unfolding h by (simp add: jsonReply_def)
  ultimately show ?thesis by (simp add: tryOnce_def)
qed


definition viewOf :: "raft \<Rightarrow> nodeView" where
  "viewOf r = \<lparr>nv_ID = id_r r, nv_State = RaftState_String (state r), nv_Term = term_r r, nv_IsLeader = IsLeader r,
     nv_Reachable = True\<rparr>"

definition statusAnswer :: "time \<Rightarrow> httpRequest \<Rightarrow> raft \<Rightarrow> sendResult" where
  "statusAnswer now rq r = (let rs = handleStatus now rq r in Answer (rs_Status rs) (rs_Type rs) (rs_Body rs))"

definition reportable :: "raft \<Rightarrow> bool" where
  "reportable r \<longleftrightarrow> utf8_valid (id_r r) \<and> utf8_valid (leader r) \<and> list_all utf8_valid (peers r) \<and> int64_range (term_r r)"

lemma leaderHTTPBase_empty: "leaderHTTPBase p = [] \<longleftrightarrow> parsePort p = 0"
  by (simp add: leaderHTTPBase_def parsePort_def split: prod.split)

lemma peerView_answer:
  assumes "parsePort (id_r q) \<noteq> 0" and "reportable q" and "rq_Method rq = ''GET''"
    and "fst (poll (leaderHTTPBase (id_r q))) = statusAnswer now rq q"
  shows "peerView poll (id_r q) = viewOf q"
  using assms status_read_back [of q rq now "rs_Type (handleStatus now rq q)"]
  by (cases "poll (leaderHTTPBase (id_r q))")
     (simp add: peerView_def leaderHTTPBase_empty viewOf_def statusAnswer_def reportable_def Let_def)

text \<open>What the dashboard shows. When every peer has an identifier with a port and answers
  the status request that is sent to its HTTP address with its own status, the list of nodes
  has the node and each of its peers exactly once, each with the identifier, role, term and
  leader flag the node itself has, ordered by port and identifier.\<close>

theorem dashboard_view:
  assumes "\<And>p. p \<in> set (peers r) \<Longrightarrow> id_r (node p) = p \<and> parsePort p \<noteq> 0 \<and> reportable (node p)"
    and "\<And>p. p \<in> set (peers r) \<Longrightarrow> fst (poll (leaderHTTPBase p)) = statusAnswer now rq (node p)"
    and "rq_Method rq = ''GET''"
  shows "let views = nodeViews poll r in
         sorted (map (\<lambda>v. (parsePort (nv_ID v), nv_ID v)) views) \<and>
         mset views = mset (map viewOf (r # map node (peers r)))"
proof -
  have "peerView poll p = viewOf (node p)" if "p \<in> set (peers r)" for p
    using that assms peerView_answer [of "node p" rq poll now] by auto
  then have "map (peerView poll) (peers r) = map (viewOf \<circ> node) (peers r)" by simp
  then have v: "nodeViews poll r =
      sort_key (\<lambda>v. (parsePort (nv_ID v), nv_ID v)) (viewOf r # map (viewOf \<circ> node) (peers r))"
    by (simp only: nodeViews_def getStatus_def GetPeers_def viewOf_def Let_def Status.simps)
  show ?thesis unfolding v Let_def by (simp only: sorted_sort_key mset_sort map_map list.map simp_thms)
qed

text \<open>A request for the status.\<close>

definition getRequest :: "string \<Rightarrow> httpRequest" where
  "getRequest path = \<lparr>rq_Method = ''GET'', rq_Path = path, rq_RawQuery = [], rq_Host = ''localhost'', rq_TLS = False,
     rq_ForwardedProto = [], rq_ContentType = [], rq_Body = Inr []\<rparr>"

theorem dashboard_view_witness:
  "let r = (replica ''h:4002'')\<lparr>peers := [''h:4000'']\<rparr>; q = replica ''h:4000'';
       views = nodeViews (\<lambda>base. (statusAnswer 0 (getRequest ''/api/status'') q, DoErr [])) r in
   mset views = {#viewOf r, viewOf q#}"
proof -
  let ?r = "(replica ''h:4002'')\<lparr>peers := [''h:4000'']\<rparr>" and ?q = "replica ''h:4000''"
  have h: "id_r ?q = p \<and> parsePort p \<noteq> 0 \<and> reportable ?q" if "p \<in> set (peers ?r)" for p
    using that by (auto simp: replica_def newRaft_def reportable_def utf8_valid_ascii int64_range_def parsePort_def
        ParseHostPort_def SplitHostPort_def Atoi_def all_digits_def is_digit_def dec_val_def digit_val_def)
  have "rq_Method (getRequest ''/api/status'') = ''GET''" by (simp add: getRequest_def)
  from dashboard_view [of ?r "\<lambda>p. ?q" "\<lambda>base. (statusAnswer 0 (getRequest ''/api/status'') ?q, DoErr [])" 0, OF h _ this]
  have "mset (nodeViews (\<lambda>base. (statusAnswer 0 (getRequest ''/api/status'') ?q, DoErr [])) ?r) =
      mset (map viewOf (?r # map (\<lambda>p. ?q) (peers ?r)))"
    unfolding Let_def by simp
  then show ?thesis unfolding Let_def by simp
qed

subsection \<open>Strong reads through any node\<close>

lemma getBody_ok: "utf8_valid v \<Longrightarrow> json_ok (JObj [(''found'', JBool b), (''value'', JStr v)])"
  by (simp add: utf8_valid_ascii)

lemma dec_value: "dec_field [''value''] ''value'' (JObj [(''found'', JBool b), (''value'', JStr v)]) = Some v"
  by (simp add: dec_field_def dec_struct_def dec_string_def fields_eval)



subsection \<open>The snapshot endpoint\<close>

lemma applyChanges_snapshotter [simp]: "snapshotter (applyChanges now cs r) = snapshotter r"
proof (induction cs arbitrary: r)
  case (Cons c cs)
  then show ?case by (cases c) simp
qed simp

lemma replay_snapshotter:
  "\<not> snapshotter (replayConfigChanges now (newRaft i ps trm vf now es bs sn dir d))"
  unfolding replayConfigChanges_alt applyChanges_snapshotter newRaft_def by simp

lemma New_snapshotter: "\<not> snapshotter (New i ps dir now dsk)"
proof -
  obtain d1 trm vf sp e1 where 1: "meta_Load (dir @ ''/raft-meta.json'') dsk = (d1, trm, vf, sp, e1)"
    by (rule prod_cases5)
  obtain d2 ld e2 where 2: "log_Load (dir @ ''/raft-log.json'') d1 = (d2, ld, e2)" by (rule prod_cases3)
  obtain d3 sn e3 where 3: "snap_Load (dir @ ''/raft-snap.json'') d2 = (d3, sn, e3)" by (rule prod_cases3)
  obtain bs es where 4: "alignLog sn (if ld = [] then [\<lparr>Index = 0, Term = 0, Data = []\<rparr>] else ld) = (bs, es)"
    by (rule prod.exhaust)
  show ?thesis
    unfolding New_def Let_def 1 2 3 4 prod.case by (cases sn) (simp_all add: replay_snapshotter)
qed

text \<open>\<^verbatim>\<open>POST /raft/snapshot\<close> reports a snapshot that does not exist. The node the daemon
  starts has no snapshot function registered, and at a leader without one the endpoint changes
  nothing and writes no snapshot, but answers 200 with \<^verbatim>\<open>snapshot created\<close>.\<close>

theorem snapshot_endpoint_reports_success:
  assumes "\<not> snapshotter r" and "IsLeader r" and "rq_Method rq = ''POST''"
  shows "\<not> snapshotter (startNode getenv now dsk) \<and>
         (\<exists>ms. raftSnapshot unix result rq r = (r, jsonReply 200 (JObj ms)) \<and>
           (''message'', JStr ''snapshot created'') \<in> set ms \<and> (''status'', JStr ''ok'') \<in> set ms)"
proof
  show "\<not> snapshotter (startNode getenv now dsk)"
    by (simp add: startNode_def New_snapshotter Let_def)
  have "raftSnapshot unix result rq r = (r, jsonReply 200 (JObj [(''message'', JStr ''snapshot created''),
      (''raft_status'', enc_Status (getStatus r)), (''status'', JStr ''ok'')]))"
    using assms by (simp add: raftSnapshot_def ForceSnapshot_def createSnapshotLocked_def)
  then show "\<exists>ms. raftSnapshot unix result rq r = (r, jsonReply 200 (JObj ms)) \<and>
      (''message'', JStr ''snapshot created'') \<in> set ms \<and> (''status'', JStr ''ok'') \<in> set ms" by fastforce
qed

theorem snapshot_endpoint_reports_success_witness:
  "fst (raftSnapshot 1 (Inr []) ((getRequest ''/raft/snapshot'')\<lparr>rq_Method := ''POST''\<rparr>) soloLeader) = soloLeader"
proof -
  have "\<not> snapshotter soloLeader" by (simp add: soloLeader_def replica_def newRaft_def)
  from snapshot_endpoint_reports_success [OF this soloLeader_facts(1), of "(getRequest ''/raft/snapshot'')\<lparr>rq_Method := ''POST''\<rparr>"
      Map.empty 0 undefined 1 "Inr []"]
  show ?thesis by auto
qed

end
