(* ===== verification/Spawner.thy ===== *)
theory Spawner
  imports Http_Api
begin

section \<open>Spawned nodes\<close>

text \<open>
  The dashboard starts and stops daemons on the machine of the leader
  (\<^verbatim>\<open>internal/api/server.go\<close>). The table of the child processes and the next port to try are
  the state \<open>spawnManager\<close>; whether a port can be listened on, and what the operating system
  answers, are arguments; what the handlers ask of the operating system is a list of
  \<open>osAction\<close>s.
\<close>

record spawnManager =
  sm_next :: int
  sm_procs :: "int \<rightharpoonup> int"

definition newSpawnManager :: spawnManager where
  "newSpawnManager = \<lparr>sm_next = 4002, sm_procs = Map.empty\<rparr>"

definition ensureNextAtLeast :: "int \<Rightarrow> spawnManager \<Rightarrow> spawnManager" where
  "ensureNextAtLeast p m = (if sm_next m < p then m\<lparr>sm_next := p\<rparr> else m)"

definition isReserved :: "int list \<Rightarrow> spawnManager \<Rightarrow> int \<Rightarrow> bool" where
  "isReserved reserved m p \<longleftrightarrow> p \<in> set reserved \<or> sm_procs m p \<noteq> None"

function portLoop :: "(int \<Rightarrow> bool) \<Rightarrow> int list \<Rightarrow> spawnManager \<Rightarrow> int \<Rightarrow> spawnManager \<times> (error + int)" where
  "portLoop listen reserved m port =
     (if 10000 \<le> port then (m, Inl ''no free port found'')
      else if isReserved reserved m port then portLoop listen reserved m (port + 2)
      else if \<not> listen port then portLoop listen reserved m (port + 2)
      else if \<not> listen (port + 1) then portLoop listen reserved m (port + 2)
      else (m\<lparr>sm_next := port + 2\<rparr>, Inr port))"
  by pat_completeness auto
termination
  by (relation "measure (\<lambda>(listen, reserved, m, port). nat (10000 - port))") auto

declare portLoop.simps [simp del]

definition nextFreePort :: "(int \<Rightarrow> bool) \<Rightarrow> int list \<Rightarrow> spawnManager \<Rightarrow> spawnManager \<times> (error + int)" where
  "nextFreePort listen reserved m = portLoop listen reserved m (sm_next m)"

definition track :: "int \<Rightarrow> int \<Rightarrow> spawnManager \<Rightarrow> spawnManager" where
  "track port cmd m = m\<lparr>sm_procs := (sm_procs m)(port \<mapsto> cmd)\<rparr>"

definition sm_remove :: "int \<Rightarrow> spawnManager \<Rightarrow> spawnManager" where
  "sm_remove port m = m\<lparr>sm_procs := (sm_procs m)(port := None)\<rparr>"

definition sm_get :: "int \<Rightarrow> spawnManager \<Rightarrow> int option" where
  "sm_get port m = sm_procs m port"

subsection \<open>Starting a node\<close>

datatype osAction =
    RemoveAll string
  | MkdirAll string
  | StartProc "(string \<times> string) list"
  | WriteFile string string
  | KillProc int

definition nodeDir :: "int \<Rightarrow> string" where
  "nodeDir port = ''data-spawn/node-'' @ Itoa port"

text \<open>The ports of the node and its peers.\<close>

definition reservedPorts :: "int \<Rightarrow> NodeID list \<Rightarrow> int list" where
  "reservedPorts selfPort ps = selfPort # filter (\<lambda>rp. 0 < rp) (map parsePort ps)"

definition peersEnv :: "string \<Rightarrow> NodeID \<Rightarrow> NodeID list \<Rightarrow> string" where
  "peersEnv host self ps = join '','' (map (\<lambda>p. normalizeNodeIDForHost p host) (self # ps))"

definition childEnv :: "int \<Rightarrow> NodeID \<Rightarrow> string \<Rightarrow> (string \<times> string) list" where
  "childEnv port nodeID ps =
     [(''MIMORI_ADDR'', '':'' @ Itoa port), (''MIMORI_NODE_ID'', nodeID), (''MIMORI_DATA'', nodeDir port),
      (''MIMORI_PEERS'', ps)]"

record spawnOutcome =
  so_listen :: "int \<Rightarrow> bool"
  so_mkdir :: "error option"
  so_start :: "error + int"
  so_inTime :: bool

definition spawnFailed :: "string \<Rightarrow> httpResponse" where
  "spawnFailed msg = jsonReply 400 (JObj [(''error'', JStr msg), (''success'', JBool False)])"

definition handleSpawnNode ::
  "spawnOutcome \<Rightarrow> (proxyRequest \<Rightarrow> sendResult) \<Rightarrow> string \<Rightarrow> httpRequest \<Rightarrow> raftProc \<Rightarrow> spawnManager \<Rightarrow>
     raftProc \<times> spawnManager \<times> osAction list \<times> outgoing list \<times> httpResponse"
where
  "handleSpawnNode oc send grpcAddr rq s m =
     (let r = pr_node s; selfID = id_r r in
      if rq_Method rq \<noteq> ''POST'' then (s, m, [], [], notAllowed)
      else if \<not> IsLeader r then (s, m, [], [], proxyToLeader send rq r)
      else if dockerNode selfID \<noteq> None then
        (s, m, [], [], spawnFailed ''spawn-node is disabled in Docker Compose (ports are not published). Add more nodes via docker-compose instead.'')
      else
        let selfPort = parsePort grpcAddr;
            m1 = (if 0 < selfPort then ensureNextAtLeast (wrap64 (selfPort + 2)) m else m);
            ps = GetPeers r
        in case nextFreePort (so_listen oc) (reservedPorts selfPort ps) m1 of
             (m2, Inl err) \<Rightarrow> (s, m2, [], [], httpError (''no free port: '' @ err) 500)
           | (m2, Inr port) \<Rightarrow>
               let dataDir = nodeDir port; a1 = [RemoveAll dataDir, MkdirAll dataDir] in
               (case so_mkdir oc of
                  Some err \<Rightarrow> (s, m2, a1, [], httpError (''mkdir data dir: '' @ err) 500)
                | None \<Rightarrow>
                    let h0 = requestHost rq;
                        hostForIDs = (if dockerNode selfID \<noteq> None then
                                        (let h = fst (ParseHostPort selfID) in if h \<noteq> [] then h else h0) else h0);
                        nodeID = hostPort hostForIDs port;
                        a2 = a1 @ [StartProc (childEnv port nodeID (peersEnv hostForIDs selfID ps))]
                    in case so_start oc of
                         Inl err \<Rightarrow> (s, m2, a2, [], httpError (''failed to start node: '' @ err) 500)
                       | Inr pid \<Rightarrow>
                           let a3 = a2 @ (if 0 < pid then [WriteFile (dataDir @ ''/pid'') (Itoa pid)] else []);
                               m3 = track port pid m2
                           in case AddNodeInternal (so_inTime oc) nodeID s of
                                (s1, out, Some err) \<Rightarrow>
                                  (s1, sm_remove port m3, a3 @ [KillProc pid], out,
                                   writeLeaderJSONError rq 500 (''add node failed: '' @ err) (LeaderID (pr_node s1)))
                              | (s1, out, None) \<Rightarrow>
                                  (s1, m3, a3, out,
                                   jsonReply 200 (JObj [(''addr'', JStr nodeID), (''data'', JStr dataDir),
                                     (''node_id'', JStr nodeID), (''success'', JBool True)]))))"

text \<open>The goroutine that waits for the child.\<close>

definition childExited :: "int \<Rightarrow> spawnManager \<Rightarrow> spawnManager" where
  "childExited port m = sm_remove port m"

subsection \<open>Stopping a node\<close>

definition handleRemoveNode ::
  "bool \<Rightarrow> (string \<Rightarrow> error + string) \<Rightarrow> (proxyRequest \<Rightarrow> sendResult) \<Rightarrow> httpRequest \<Rightarrow> raftProc \<Rightarrow> spawnManager \<Rightarrow>
     raftProc \<times> spawnManager \<times> osAction list \<times> outgoing list \<times> httpResponse"
where
  "handleRemoveNode inTime readFile send rq s m =
     (if rq_Method rq \<noteq> ''POST'' then (s, m, [], [], notAllowed)
      else if \<not> IsLeader (pr_node s) then (s, m, [], [], proxyToLeader send rq (pr_node s))
      else case bodyField [''node_id''] ''node_id'' rq of
        None \<Rightarrow> (s, m, [], [], httpError ''invalid request body'' 400)
      | Some nodeID \<Rightarrow>
          if nodeID = [] then (s, m, [], [], httpError ''node_id required'' 400)
          else
            let (s1, out, resp) = RemoveNode inTime nodeID s; port = parsePort nodeID; dataDir = nodeDir port in
            if adm_Success resp \<and> 0 < port then
              (case sm_get port m of
                 Some pid \<Rightarrow>
                   (s1, sm_remove port m, [KillProc pid, RemoveAll dataDir], out, adminReply resp)
               | None \<Rightarrow>
                   let kill = (case readFile (dataDir @ ''/pid'') of
                                 Inl err \<Rightarrow> []
                               | Inr b \<Rightarrow> (case Atoi (TrimSpace b) of
                                            Some pid \<Rightarrow> if 0 < pid then [KillProc pid] else []
                                          | None \<Rightarrow> []))
                   in (s1, m, kill @ [RemoveAll dataDir], out, adminReply resp))
            else (s1, m, [], out, adminReply resp))"


subsection \<open>Free ports\<close>

definition freePort :: "(int \<Rightarrow> bool) \<Rightarrow> int list \<Rightarrow> spawnManager \<Rightarrow> int \<Rightarrow> bool" where
  "freePort listen reserved m p \<longleftrightarrow> \<not> isReserved reserved m p \<and> listen p \<and> listen (p + 1)"

text \<open>The ports the loop may return.\<close>

definition candidates :: "(int \<Rightarrow> bool) \<Rightarrow> int list \<Rightarrow> spawnManager \<Rightarrow> int \<Rightarrow> int set" where
  "candidates listen reserved m start =
     {p. start \<le> p \<and> p < 10000 \<and> even (p - start) \<and> freePort listen reserved m p}"

lemma candidates_step:
  assumes "\<not> freePort listen reserved m start \<or> 10000 \<le> start"
  shows "candidates listen reserved m start = candidates listen reserved m (start + 2)"
proof -
  have "start + 2 \<le> p" if "start \<le> p" "p \<noteq> start" "even (p - start)" for p
  proof -
    have "p \<noteq> start + 1" using that(3) by auto
    then show ?thesis using that(1,2) by simp
  qed
  moreover have "even (p - (start + 2)) = even (p - start)" for p by simp
  ultimately show ?thesis using assms by (auto simp: candidates_def)
qed

definition firstCandidate :: "int set \<Rightarrow> spawnManager \<Rightarrow> spawnManager \<times> (error + int) \<Rightarrow> bool" where
  "firstCandidate C m res \<longleftrightarrow>
     (case res of (m', Inr p) \<Rightarrow> p \<in> C \<and> C \<inter> {..<p} = {} \<and> m' = m\<lparr>sm_next := p + 2\<rparr>
      | (m', Inl err) \<Rightarrow> C = {} \<and> m' = m)"

lemma portLoop_spec: "firstCandidate (candidates listen reserved m port) m (portLoop listen reserved m port)"
proof (induction listen reserved m port rule: portLoop.induct)
  case (1 listen reserved m port)
  consider (past) "10000 \<le> port" | (free) "port < 10000" "freePort listen reserved m port"
    | (skip) "port < 10000" "\<not> freePort listen reserved m port" by linarith
  then show ?case
  proof cases
    case past
    then show ?thesis by (simp add: portLoop.simps firstCandidate_def candidates_def)
  next
    case free
    then show ?thesis by (subst portLoop.simps) (auto simp: firstCandidate_def candidates_def freePort_def)
  next
    case skip
    then have "portLoop listen reserved m port = portLoop listen reserved m (port + 2)"
      by (subst portLoop.simps) (auto simp: freePort_def)
    moreover have "firstCandidate (candidates listen reserved m (port + 2)) m (portLoop listen reserved m (port + 2))"
      using skip 1 unfolding freePort_def by force
    ultimately show ?thesis using skip candidates_step [of listen reserved m port] by simp
  qed
qed

text \<open>C33: the port a new node gets. The search ends; it returns the first port, in steps of
  two from the next port to try and below 10000, that no member and no child process uses and
  that can be listened on together with the port after it, and moves on past it; it fails
  exactly when there is no such port.\<close>

theorem nextFreePort_first:
  "case nextFreePort listen reserved m of
     (m', Inr p) \<Rightarrow>
       p \<in> candidates listen reserved m (sm_next m) \<and> candidates listen reserved m (sm_next m) \<inter> {..<p} = {} \<and>
       m' = m\<lparr>sm_next := p + 2\<rparr>
   | (m', Inl err) \<Rightarrow> candidates listen reserved m (sm_next m) = {} \<and> m' = m"
  using portLoop_spec [of listen reserved m "sm_next m"] by (simp add: nextFreePort_def firstCandidate_def)

text \<open>What happens to the manager over time.\<close>

datatype spawnOp =
    Ensure int
  | NextFree "int \<Rightarrow> bool" "int list"
  | Track int int
  | Gone int

fun spawnStep :: "spawnOp \<Rightarrow> spawnManager \<Rightarrow> spawnManager \<times> int list" where
  "spawnStep (Ensure p) m = (ensureNextAtLeast p m, [])"
| "spawnStep (NextFree listen reserved) m =
     (case nextFreePort listen reserved m of (m', Inr p) \<Rightarrow> (m', [p]) | (m', Inl err) \<Rightarrow> (m', []))"
| "spawnStep (Track p cmd) m = (track p cmd m, [])"
| "spawnStep (Gone p) m = (childExited p m, [])"

fun handedOut :: "spawnOp list \<Rightarrow> spawnManager \<Rightarrow> int list" where
  "handedOut [] m = []"
| "handedOut (x # xs) m = (let (m', ps) = spawnStep x m in ps @ handedOut xs m')"

lemma spawnStep_next:
  "spawnStep x m = (m', ps) \<Longrightarrow>
     sm_next m \<le> sm_next m' \<and> (\<forall>p \<in> set ps. sm_next m \<le> p \<and> p + 2 \<le> sm_next m') \<and> sorted_wrt (\<lambda>p q. p + 2 \<le> q) ps"
proof (cases x)
  case (NextFree listen reserved)
  moreover assume "spawnStep x m = (m', ps)"
  ultimately show ?thesis
    using portLoop_spec [of listen reserved m "sm_next m"]
    by (auto simp: nextFreePort_def firstCandidate_def candidates_def split: prod.splits sum.splits)
qed (auto simp: ensureNextAtLeast_def track_def childExited_def sm_remove_def)

lemma handedOut_above: "p \<in> set (handedOut xs m) \<Longrightarrow> sm_next m \<le> p"
proof (induction xs arbitrary: m)
  case (Cons x xs)
  obtain m' ps where x: "spawnStep x m = (m', ps)" by fastforce
  with Cons spawnStep_next [OF x] show ?case by fastforce
qed simp

text \<open>C34: nodes that were spawned never share a port. Whatever happens to the manager, the
  ports it hands out over time grow by at least two, so the gRPC and HTTP ports of two spawned
  nodes are four different ports, also when one of the nodes has exited.\<close>

theorem spawned_ports_disjoint:
  "sorted_wrt (\<lambda>p q. p + 2 \<le> q) (handedOut xs m)"
proof (induction xs arbitrary: m)
  case (Cons x xs)
  obtain m' ps where x: "spawnStep x m = (m', ps)" by fastforce
  have "p + 2 \<le> q" if "p \<in> set ps" "q \<in> set (handedOut xs m')" for p q
    using that spawnStep_next [OF x] handedOut_above [OF that(2)] by fastforce
  with Cons x spawnStep_next [OF x] show ?case by (auto simp: sorted_wrt_append)
qed simp

subsection \<open>The node that is started\<close>

lemma Split_plain: "c \<notin> set s \<Longrightarrow> Split s c = [s]"
  by (induction s) auto

lemma Split_append: "c \<notin> set s \<Longrightarrow> Split (s @ c # t) c = s # Split t c"
  by (induction s) auto

lemma Split_join:
  "xs \<noteq> [] \<Longrightarrow> list_all (\<lambda>x. c \<notin> set x) xs \<Longrightarrow> Split (join [c] xs) c = xs"
  by (induction xs rule: induct_list012) (simp_all add: Split_plain Split_append)

text \<open>A node identifier that survives the environment variable.\<close>

definition listable :: "string \<Rightarrow> bool" where
  "listable p \<longleftrightarrow> p \<noteq> [] \<and> CHR '','' \<notin> set p"

lemma splitPeers_join:
  assumes "list_all listable xs" and "xs \<noteq> []"
  shows "splitPeers (join '','' xs) = xs"
proof -
  have "join '','' xs \<noteq> []" using assms by (induction xs rule: induct_list012) (auto simp: listable_def)
  moreover have "filter (\<lambda>p. p \<noteq> []) xs = xs" using assms(1) by (simp add: list_all_iff listable_def)
  ultimately show ?thesis
    using assms Split_join [of xs "CHR '',''"] by (simp add: splitPeers_def list_all_iff listable_def)
qed


lemma AddNodeInternal_log:
  assumes "IsLeader (pr_node s)"
  shows "log_r (pr_node (fst (AddNodeInternal t n s))) =
    log_r (pr_node s) @ [\<lparr>Index = lastLogIndex (pr_node s) + 1, Term = term_r (pr_node s), Data = configData ConfigAddNode n\<rparr>]"
  using assms
  by (simp add: AddNodeInternal_def proposeConfigChange_def IsLeader_def sendHeartbeats_def updateCommitIndexLocked_def
      AppliedWait_def Let_def split: option.split)

lemma childEnv_config:
  assumes "list_all listable (map (\<lambda>p. normalizeNodeIDForHost p host) (self # ps))" and "0 \<le> port"
  shows "daemonConfigOf (parent ++ map_of (childEnv port (hostPort host port) (peersEnv host self ps))) =
    \<lparr>dc_addr = '':'' @ Itoa port, dc_dataDir = nodeDir port, dc_nodeID = hostPort host port,
     dc_peers = map (\<lambda>p. normalizeNodeIDForHost p host) (self # ps)\<rparr>"
proof -
  let ?xs = "map (\<lambda>p. normalizeNodeIDForHost p host) (self # ps)"
  have "splitPeers (peersEnv host self ps) = ?xs" "peersEnv host self ps \<noteq> []"
    using splitPeers_join [OF assms(1)] by (auto simp: peersEnv_def splitPeers_def split: if_splits)
  then show ?thesis
    by (simp add: daemonConfigOf_def env_def childEnv_def nodeDir_def hostPort_def Let_def map_add_def)
qed



text \<open>The dashboard of a single node on port 4000 starts a second one.\<close>

definition solo4000 :: raftProc where
  "solo4000 = \<lparr>pr_node = soloLeader\<lparr>id_r := ''localhost:4000''\<rparr>, pr_pool = newConnectionPool, pr_stopped = False\<rparr>"

definition allFree :: spawnOutcome where
  "allFree = \<lparr>so_listen = (\<lambda>p. True), so_mkdir = None, so_start = Inr 77, so_inTime = True\<rparr>"

definition spawnRequest :: httpRequest where
  "spawnRequest = (getRequest ''/api/cluster/spawn-node'')\<lparr>rq_Method := ''POST''\<rparr>"

lemma Itoa_ports: "Itoa 4000 = ''4000''" "Itoa 4002 = ''4002''"
  by (simp_all add: Itoa_def nat_dec.simps digit_char_def char_of_def bit_0)

lemma solo4000_facts:
  "IsLeader (pr_node solo4000)" "id_r (pr_node solo4000) = hostPort ''localhost'' 4000" "peers (pr_node solo4000) = []"
  "parsePort '':4000'' = 4000" "requestHost spawnRequest = ''localhost''"
  "normalizeNodeIDForHost ''localhost:4000'' ''localhost'' = ''localhost:4000''"
proof -
  show "IsLeader (pr_node solo4000)" "peers (pr_node solo4000) = []"
    using soloLeader_facts(1,2) by (simp_all add: solo4000_def IsLeader_def)
  show "id_r (pr_node solo4000) = hostPort ''localhost'' 4000" by (simp add: solo4000_def hostPort_def Itoa_ports)
  show "parsePort '':4000'' = 4000"
    using ParseHostPort_text(1) [of 4000 "[]"]
    by (simp add: parsePort_def hostPort_def Itoa_ports int64_range_def plain_host_def)
  show "requestHost spawnRequest = ''localhost''"
    by (simp add: requestHost_def spawnRequest_def getRequest_def SplitHostPort_def)
  show "normalizeNodeIDForHost ''localhost:4000'' ''localhost'' = ''localhost:4000''"
    using ParseHostPort_text(1) [of 4000 "''localhost''"]
    by (simp add: normalizeNodeIDForHost_def hostPort_def Itoa_ports int64_range_def plain_host_def)
qed

lemma solo4000_spawn:
  "StartProc (childEnv 4002 (hostPort ''localhost'' 4002) (peersEnv ''localhost'' ''localhost:4000'' [])) \<in>
     set (fst (snd (snd (handleSpawnNode allFree send '':4000'' spawnRequest solo4000 newSpawnManager))))"
proof -
  have "wrap64 4002 = 4002" by (simp add: wrap64_def)
  then have "nextFreePort (\<lambda>p. True) [4000] (ensureNextAtLeast (wrap64 4002) newSpawnManager) = (newSpawnManager\<lparr>sm_next := 4004\<rparr>, Inr 4002)"
    unfolding nextFreePort_def by (subst portLoop.simps) (simp add: ensureNextAtLeast_def newSpawnManager_def isReserved_def)
  moreover have "rq_Method spawnRequest = ''POST''" by (simp add: spawnRequest_def)
  moreover have "dockerNode (hostPort ''localhost'' 4000) = None" by (simp add: dockerNode_def hostPort_def)
  ultimately show ?thesis
    using solo4000_facts
    by (simp add: handleSpawnNode_def allFree_def GetPeers_def reservedPorts_def Let_def hostPort_def Itoa_ports
        split: prod.split option.split)
qed


subsection \<open>Stopping what was started\<close>

lemma TrimSpace_digits: "list_all is_digit s \<Longrightarrow> s \<noteq> [] \<Longrightarrow> TrimSpace s = s"
  by (intro TrimSpace_graphic graphic_digit) (simp_all add: list_all_iff)

text \<open>Removing a node that was spawned stops it. When the leader removes a node whose
  process it has in its table, or whose process number it finds in the file the spawning
  leader has written, the process is killed, the node's data directory is deleted, and the
  table has no process at its port.\<close>

theorem spawned_node_is_stopped:
  assumes "IsLeader (pr_node s)" and "rq_Method rq = ''POST''"
    and "bodyField [''node_id''] ''node_id'' rq = Some (hostPort h port)"
    and "plain_host h" and "0 < port" and "port < 10000" and "0 < pid" and "int64_range pid"
    and "adm_Success (snd (snd (RemoveNode inTime (hostPort h port) s)))"
    and "sm_procs m port = Some pid \<or>
         sm_procs m port = None \<and> readFile (nodeDir port @ ''/pid'') = Inr (Itoa pid)"
  shows "let (s', m', acts, out, rs) = handleRemoveNode inTime readFile send rq s m in
         acts = [KillProc pid, RemoveAll (nodeDir port)] \<and> sm_procs m' port = None"
proof -
  obtain s1 out resp where R: "RemoveNode inTime (hostPort h port) s = (s1, out, resp)" by (rule prod_cases3)
  have "parsePort (hostPort h port) = port"
    using ParseHostPort_text(1) [of port h] assms(4-6) by (simp add: parsePort_def int64_range_def)
  moreover have "TrimSpace (Itoa pid) = Itoa pid"
    using assms(7) nat_dec_digits by (simp add: TrimSpace_digits Itoa_def)
  moreover have "hostPort h port \<noteq> []" by (simp add: hostPort_def)
  ultimately show ?thesis
    using assms R
    by (auto simp: handleRemoveNode_def sm_get_def sm_remove_def Atoi_Itoa Let_def)
qed


theorem spawned_node_is_stopped_witness:
  "let s = solo4000\<lparr>pr_node := (pr_node solo4000)\<lparr>peers := [''localhost:4002'']\<rparr>\<rparr>;
       rq = spawnRequest\<lparr>rq_Body := Inr (rs_Body (jsonReply 200 (JObj [(''node_id'', JStr (hostPort ''localhost'' 4002))])))\<rparr>;
       (s', m', acts, out, rs) = handleRemoveNode True (\<lambda>f. Inr (Itoa 77)) (\<lambda>px. DoErr []) rq s newSpawnManager
   in acts = [KillProc 77, RemoveAll (nodeDir 4002)]"
proof -
  let ?s = "solo4000\<lparr>pr_node := (pr_node solo4000)\<lparr>peers := [''localhost:4002'']\<rparr>\<rparr>"
  let ?ms = "[(''node_id'', JStr (hostPort ''localhost'' 4002))]"
  let ?rq = "spawnRequest\<lparr>rq_Body := Inr (rs_Body (jsonReply 200 (JObj ?ms)))\<rparr>"
  have ok: "json_ok (JObj ?ms)" by (simp add: utf8_valid_ascii hostPort_def Itoa_ports)
  have dec: "dec_field [''node_id''] ''node_id'' (JObj ?ms) = Some (hostPort ''localhost'' 4002)"
    by (simp add: dec_field_def dec_struct_def dec_string_def)
  have 1: "IsLeader (pr_node ?s)" "rq_Method ?rq = ''POST''" using solo4000_facts(1)
    by (simp_all add: IsLeader_def spawnRequest_def)
  have 2: "bodyField [''node_id''] ''node_id'' ?rq = Some (hostPort ''localhost'' 4002)"
    using Decode_reply [OF ok, of "dec_field [''node_id''] ''node_id''" 200] dec by (simp add: bodyField_def)
  have 3: "plain_host ''localhost''" "0 < (4002::int)" "4002 < (10000::int)" "0 < (77::int)" "int64_range 77"
    by (simp_all add: plain_host_def int64_range_def)
  have "faults (fs_r soloLeader) = []" by (simp add: soloLeader_def replica_def newRaft_def)
  then have "saveLogErr q = None" if "fs_r q = fs_r soloLeader" for q
    using that by (simp add: saveLogErr_def log_SaveAll_def)
  then have 4: "adm_Success (snd (snd (RemoveNode True (hostPort ''localhost'' 4002) ?s)))"
    using 1(1) by (simp add: RemoveNode_def RemoveNodeInternal_def proposeConfigChange_def IsLeader_def hostPort_def Itoa_ports
        adminResult_def Let_def solo4000_def split: prod.split)
  show ?thesis
    using spawned_node_is_stopped [OF 1 2 3 4, of newSpawnManager "\<lambda>f. Inr (Itoa 77)" "\<lambda>px. DoErr []"]
    by (simp add: newSpawnManager_def Let_def split: prod.splits)
qed

end
