(* ===== verification/Client_Library.thy ===== *)
theory Client_Library
  imports Http_Api
begin

section \<open>The client library\<close>

text \<open>
  \<^verbatim>\<open>client/client.go\<close>: a client keeps connections and the address of the leader it last knew,
  asks the nodes for the leader over HTTP, and repeats an operation until it succeeds or its
  retries are used up. The network is a record of functions over a state of the world: HTTP
  requests, dialling, the state of a connection, the calls of the key-value service, and the
  passing of time. An answer comes with its whole body. The loop \<^verbatim>\<open>executeWithRetry\<close> is the same in the library and in the command
  line client, so it is written once over the operations that differ.
\<close>

subsection \<open>Errors that name the leader\<close>

definition ToLower :: "string \<Rightarrow> string" where
  "ToLower s = map (\<lambda>c. if 65 \<le> (of_char c :: nat) \<and> (of_char c :: nat) \<le> 90 then char_of ((of_char c :: nat) + 32) else c) s"

definition isLeaderError :: "grpcErr \<Rightarrow> bool" where
  "isLeaderError err =
     (case err of
        PlainErr msg \<Rightarrow> False
      | Status c msg \<Rightarrow>
          c = FailedPrecondition \<and> (Contains (ToLower msg) ''not leader'' \<or> Contains (ToLower msg) ''leader=''))"

definition hintDelim :: "char \<Rightarrow> bool" where
  "hintDelim c \<longleftrightarrow> c \<in> {CHR '' '', CHR 0x09, CHR 0x0A, CHR '')'', CHR '','', CHR '';''}"

definition extractLeaderHint :: "grpcErr \<Rightarrow> string option" where
  "extractLeaderHint err =
     (case err of
        PlainErr msg \<Rightarrow> None
      | Status c msg \<Rightarrow>
          (case strIndex msg ''leader='' of
             None \<Rightarrow> None
           | Some idx \<Rightarrow>
               let lead = TrimSpace (drop (idx + 7) msg) in
               if lead = [] then None
               else let lead2 = TrimSpace (takeWhile (\<lambda>c. \<not> hintDelim c) lead) in
                    if lead2 = [] then None else Some lead2))"

subsection \<open>Retrying\<close>

datatype kvCall = CallPut bytes bytes | CallGet bytes bool | CallDelete bytes | CallHealth

datatype adminCall = CallAddNode string | CallRemoveNode string | CallTransferLeadership string

datatype kvReply = PutReply | GetReply bytes bool | DeleteReply | HealthReply string

datatype 'r retryResult = Done 'r | Failed int "grpcErr option"

record 's leaderClient =
  lc_getLeader :: "'s \<Rightarrow> 's \<times> (error + string)"
  lc_seeds :: "string list"
  lc_normalize :: "string \<Rightarrow> string \<Rightarrow> string"
  lc_setLeader :: "string \<Rightarrow> 's \<Rightarrow> 's"
  lc_sleep :: "int \<Rightarrow> 's \<Rightarrow> 's"

definition backoff :: "int \<Rightarrow> int" where
  "backoff attempt =
     (let b = wrap64 (wrap64 (2 ^ nat attempt) * 100000000) in if 2000000000 < b then 2000000000 else b)"

text \<open>What an error of the operation does to the client.\<close>

definition afterError :: "'s leaderClient \<Rightarrow> int \<Rightarrow> string \<Rightarrow> grpcErr \<Rightarrow> 's \<Rightarrow> 's" where
  "afterError C attempt leaderAddr err s =
     (if isLeaderError err then
        lc_sleep C ((attempt + 1) * 50000000)
          (case extractLeaderHint err of
             Some hinted \<Rightarrow>
               lc_setLeader C (lc_normalize C (if lc_seeds C \<noteq> [] then hd (lc_seeds C) else leaderAddr) hinted) s
           | None \<Rightarrow> lc_setLeader C [] s)
      else lc_sleep C (backoff attempt) s)"

text \<open>The last component is the list of the addresses tried.\<close>

function retryLoop ::
  "'s leaderClient \<Rightarrow> (string \<Rightarrow> 's \<Rightarrow> 's \<times> (grpcErr + 'r)) \<Rightarrow> int \<Rightarrow> int \<Rightarrow> grpcErr option \<Rightarrow> 's \<Rightarrow>
     's \<times> 'r retryResult \<times> string list"
where
  "retryLoop C call maxRetries attempt lastErr s =
     (if maxRetries \<le> attempt then (s, Failed maxRetries lastErr, [])
      else
        let (s1, res) = lc_getLeader C s;
            target = (case res of
                        Inr a \<Rightarrow> Inr a
                      | Inl err \<Rightarrow> if attempt < int (length (lc_seeds C))
                                  then Inr (lc_seeds C ! nat (attempt mod int (length (lc_seeds C)))) else Inl err)
        in case target of
             Inl err \<Rightarrow>
               retryLoop C call maxRetries (attempt + 1) (Some (PlainErr err)) (lc_sleep C ((attempt + 1) * 100000000) s1)
           | Inr leaderAddr \<Rightarrow>
               (case call leaderAddr s1 of
                  (s2, Inr reply) \<Rightarrow> (s2, Done reply, [leaderAddr])
                | (s2, Inl err) \<Rightarrow>
                    let (s', r, tried) = retryLoop C call maxRetries (attempt + 1) (Some err) (afterError C attempt leaderAddr err s2)
                    in (s', r, leaderAddr # tried)))"
  by pat_completeness auto
termination
  by (relation "measure (\<lambda>(C, call, maxRetries, attempt, lastErr, s). nat (maxRetries - attempt))") auto

declare retryLoop.simps [simp del]

subsection \<open>The network\<close>

record 'w network =
  nw_get :: "string \<Rightarrow> 'w \<Rightarrow> 'w \<times> sendResult"
  nw_post :: "string \<Rightarrow> 'w \<Rightarrow> 'w \<times> sendResult"
  nw_dial :: "string \<Rightarrow> 'w \<Rightarrow> 'w \<times> (error + nat)"
  nw_usable :: "nat \<Rightarrow> 'w \<Rightarrow> bool"
  nw_call :: "nat \<Rightarrow> kvCall \<Rightarrow> 'w \<Rightarrow> 'w \<times> (grpcErr + kvReply)"
  nw_admin :: "nat \<Rightarrow> adminCall \<Rightarrow> 'w \<Rightarrow> 'w \<times> (grpcErr + AdminResponse)"
  nw_close :: "nat \<Rightarrow> 'w \<Rightarrow> 'w"
  nw_sleep :: "int \<Rightarrow> 'w \<Rightarrow> 'w"

text \<open>\<open>nw_usable\<close>: the connection's state is \<^verbatim>\<open>READY\<close> or \<^verbatim>\<open>IDLE\<close>. A connection table is shared
  by both clients.\<close>

type_synonym connTable = "string \<rightharpoonup> nat"

definition cachedConnection ::
  "'w network \<Rightarrow> string \<Rightarrow> connTable \<times> 'w \<Rightarrow> (connTable \<times> 'w) \<times> (error + nat)"
where
  "cachedConnection N addr = (\<lambda>(cs, w).
     case cs addr of
       Some conn \<Rightarrow>
         if nw_usable N conn w then ((cs, w), Inr conn)
         else (case nw_dial N addr w of
                 (w1, Inl err) \<Rightarrow> ((cs(addr := None), w1), Inl (''failed to connect to '' @ addr @ '': '' @ err))
               | (w1, Inr conn1) \<Rightarrow> ((cs(addr \<mapsto> conn1), w1), Inr conn1))
     | None \<Rightarrow>
         (case nw_dial N addr w of
            (w1, Inl err) \<Rightarrow> ((cs, w1), Inl (''failed to connect to '' @ addr @ '': '' @ err))
          | (w1, Inr conn1) \<Rightarrow> ((cs(addr \<mapsto> conn1), w1), Inr conn1)))"

subsection \<open>The client\<close>

record client =
  cl_conns :: connTable
  cl_leaderAddr :: string
  cl_seeds :: "string list"
  cl_connTimeout :: int
  cl_reqTimeout :: int
  cl_maxRetries :: int

record clientConfig =
  cfg_Seeds :: "string list"
  cfg_ConnTimeout :: int
  cfg_ReqTimeout :: int
  cfg_MaxRetries :: int

definition NewWithConfig :: "clientConfig \<Rightarrow> error + client" where
  "NewWithConfig cfg =
     (if cfg_Seeds cfg = [] then Inl ''at least one seed address is required''
      else Inr \<lparr>cl_conns = Map.empty, cl_leaderAddr = [], cl_seeds = cfg_Seeds cfg,
                cl_connTimeout = (if cfg_ConnTimeout cfg = 0 then 3000000000 else cfg_ConnTimeout cfg),
                cl_reqTimeout = (if cfg_ReqTimeout cfg = 0 then 5000000000 else cfg_ReqTimeout cfg),
                cl_maxRetries = (if cfg_MaxRetries cfg = 0 then 3 else cfg_MaxRetries cfg)\<rparr>)"

definition client_New :: "string list \<Rightarrow> error + client" where
  "client_New seeds =
     NewWithConfig \<lparr>cfg_Seeds = seeds, cfg_ConnTimeout = 0, cfg_ReqTimeout = 0, cfg_MaxRetries = 0\<rparr>"

definition client_getConnection ::
  "'w network \<Rightarrow> string \<Rightarrow> client \<times> 'w \<Rightarrow> (client \<times> 'w) \<times> (error + nat)"
where
  "client_getConnection N addr = (\<lambda>(c, w).
     let ((cs, w1), res) = cachedConnection N addr (cl_conns c, w) in ((c\<lparr>cl_conns := cs\<rparr>, w1), res))"

text \<open>\<^verbatim>\<open>Close\<close> visits the table in some order.\<close>

definition client_Close :: "'w network \<Rightarrow> string list \<Rightarrow> client \<times> 'w \<Rightarrow> client \<times> 'w" where
  "client_Close N order = (\<lambda>(c, w).
     (c\<lparr>cl_conns := Map.empty\<rparr>,
      foldl (\<lambda>w addr. case cl_conns c addr of None \<Rightarrow> w | Some conn \<Rightarrow> nw_close N conn w) w order))"

subsection \<open>Finding the leader\<close>

record leaderStatus =
  ls_ID :: string
  ls_State :: string
  ls_LeaderID :: string

definition put_leaderStatus :: "string \<Rightarrow> json \<Rightarrow> leaderStatus \<Rightarrow> leaderStatus option" where
  "put_leaderStatus f v s =
     (if f = ''id'' then map_option (\<lambda>x. s\<lparr>ls_ID := x\<rparr>) (dec_string v (ls_ID s))
      else if f = ''state'' then map_option (\<lambda>x. s\<lparr>ls_State := x\<rparr>) (dec_string v (ls_State s))
      else map_option (\<lambda>x. s\<lparr>ls_LeaderID := x\<rparr>) (dec_string v (ls_LeaderID s)))"

definition dec_leaderStatus :: "json \<Rightarrow> leaderStatus option" where
  "dec_leaderStatus =
     dec_struct [''id'', ''state'', ''leader_id''] put_leaderStatus \<lparr>ls_ID = [], ls_State = [], ls_LeaderID = []\<rparr>"

definition statusURL :: "string \<Rightarrow> string" where
  "statusURL httpAddr = ''http://'' @ httpAddr @ ''/raft/status''"

text \<open>The text of a decoding error is a fixed one; nothing depends on it.\<close>

definition findLeaderFromNode :: "'w network \<Rightarrow> string \<Rightarrow> 'w \<Rightarrow> 'w \<times> (error + string)" where
  "findLeaderFromNode N addr w =
     (case nw_get N (statusURL (getHTTPAddr addr)) w of
        (w1, BuildErr err) \<Rightarrow> (w1, Inl err)
      | (w1, DoErr err) \<Rightarrow> (w1, Inl err)
      | (w1, Answer st ct body) \<Rightarrow>
          (w1, if st \<noteq> 200 then Inl (''status check failed: '' @ Itoa st)
               else case Decode dec_leaderStatus body of
                 None \<Rightarrow> Inl ''invalid status''
               | Some s \<Rightarrow>
                   if ls_State s = ''leader'' then Inr addr
                   else if ls_LeaderID s \<noteq> [] then Inr (normalizeLeaderAddr addr (ls_LeaderID s))
                   else Inl (''node '' @ addr @ '' does not know the leader'')))"

definition verifyLeader :: "'w network \<Rightarrow> string \<Rightarrow> 'w \<Rightarrow> 'w \<times> error option" where
  "verifyLeader N addr w =
     (case nw_get N (statusURL (getHTTPAddr addr)) w of
        (w1, BuildErr err) \<Rightarrow> (w1, Some err)
      | (w1, DoErr err) \<Rightarrow> (w1, Some err)
      | (w1, Answer st ct body) \<Rightarrow>
          (w1, if st \<noteq> 200 then Some ''status check failed''
               else case Decode (dec_field [''state''] ''state'') body of
                 None \<Rightarrow> Some ''invalid status''
               | Some x \<Rightarrow> if x \<noteq> ''leader'' then Some ''node is not leader'' else None))"

fun askSeeds :: "'w network \<Rightarrow> string list \<Rightarrow> 'w \<Rightarrow> 'w \<times> string option" where
  "askSeeds N [] w = (w, None)"
| "askSeeds N (seed # seeds) w =
     (case findLeaderFromNode N seed w of
        (w1, Inr lead) \<Rightarrow> if lead \<noteq> [] then (w1, Some lead) else askSeeds N seeds w1
      | (w1, Inl err) \<Rightarrow> askSeeds N seeds w1)"

definition discoverLeader :: "'w network \<Rightarrow> client \<times> 'w \<Rightarrow> (client \<times> 'w) \<times> (error + string)" where
  "discoverLeader N = (\<lambda>(c, w).
     case askSeeds N (cl_seeds c) w of
       (w1, Some lead) \<Rightarrow> ((c\<lparr>cl_leaderAddr := lead\<rparr>, w1), Inr lead)
     | (w1, None) \<Rightarrow> ((c, w1), Inl ''could not discover leader from any seed''))"

definition getLeader :: "'w network \<Rightarrow> client \<times> 'w \<Rightarrow> (client \<times> 'w) \<times> (error + string)" where
  "getLeader N = (\<lambda>(c, w).
     let cached = cl_leaderAddr c in
     if cached \<noteq> [] then
       (case verifyLeader N cached w of
          (w1, None) \<Rightarrow> ((c, w1), Inr cached)
        | (w1, Some err) \<Rightarrow> discoverLeader N (c\<lparr>cl_leaderAddr := []\<rparr>, w1))
     else discoverLeader N (c, w))"

subsection \<open>Operations\<close>

definition leaderOps :: "'w network \<Rightarrow> client \<Rightarrow> (client \<times> 'w) leaderClient" where
  "leaderOps N c =
     \<lparr>lc_getLeader = getLeader N, lc_seeds = cl_seeds c, lc_normalize = normalizeLeaderAddr,
      lc_setLeader = (\<lambda>a (c, w). (c\<lparr>cl_leaderAddr := a\<rparr>, w)), lc_sleep = (\<lambda>d (c, w). (c, nw_sleep N d w))\<rparr>"

definition executeWithRetry ::
  "'w network \<Rightarrow> (string \<Rightarrow> client \<times> 'w \<Rightarrow> (client \<times> 'w) \<times> (grpcErr + 'r)) \<Rightarrow> client \<times> 'w \<Rightarrow>
     (client \<times> 'w) \<times> 'r retryResult \<times> string list"
where
  "executeWithRetry N call s = retryLoop (leaderOps N (fst s)) call (cl_maxRetries (fst s)) 0 None s"

definition kvRequest ::
  "'w network \<Rightarrow> kvCall \<Rightarrow> string \<Rightarrow> client \<times> 'w \<Rightarrow> (client \<times> 'w) \<times> (grpcErr + kvReply)"
where
  "kvRequest N x addr s =
     (case client_getConnection N addr s of
        (s1, Inl err) \<Rightarrow> (s1, Inl (PlainErr err))
      | ((c1, w1), Inr conn) \<Rightarrow> (case nw_call N conn x w1 of (w2, res) \<Rightarrow> ((c1, w2), res)))"

definition client_Put ::
  "'w network \<Rightarrow> bytes \<Rightarrow> bytes \<Rightarrow> client \<times> 'w \<Rightarrow> (client \<times> 'w) \<times> kvReply retryResult \<times> string list"
where
  "client_Put N key val = executeWithRetry N (kvRequest N (CallPut key val))"

definition GetWithOptions ::
  "'w network \<Rightarrow> bytes \<Rightarrow> bool \<Rightarrow> client \<times> 'w \<Rightarrow> (client \<times> 'w) \<times> kvReply retryResult \<times> string list"
where
  "GetWithOptions N key allowStale = executeWithRetry N (kvRequest N (CallGet key allowStale))"

definition client_Get ::
  "'w network \<Rightarrow> bytes \<Rightarrow> client \<times> 'w \<Rightarrow> (client \<times> 'w) \<times> kvReply retryResult \<times> string list"
where
  "client_Get N key = GetWithOptions N key False"

definition client_Delete ::
  "'w network \<Rightarrow> bytes \<Rightarrow> client \<times> 'w \<Rightarrow> (client \<times> 'w) \<times> kvReply retryResult \<times> string list"
where
  "client_Delete N key = executeWithRetry N (kvRequest N (CallDelete key))"

definition client_Health :: "'w network \<Rightarrow> client \<times> 'w \<Rightarrow> (client \<times> 'w) \<times> kvReply retryResult \<times> string list" where
  "client_Health N = executeWithRetry N (kvRequest N CallHealth)"


subsection \<open>Hints\<close>

text \<open>An identifier that the error message carries over unharmed.\<close>

definition hintable :: "string \<Rightarrow> bool" where
  "hintable a \<longleftrightarrow> a \<noteq> [] \<and> list_all (\<lambda>c. graphic c \<and> \<not> hintDelim c) a"

lemma hintable_trim:
  assumes "hintable a" and "z = [] \<or> graphic (last z)"
  shows "TrimSpace (a @ z) = a @ z"
proof (rule TrimSpace_graphic)
  show "graphic (hd (a @ z))" using assms(1) by (cases a) (auto simp: hintable_def)
  show "graphic (last (a @ z))"
    using assms by (cases a rule: rev_cases; cases z) (auto simp: hintable_def)
qed (use assms in \<open>auto simp: hintable_def\<close>)

lemma takeWhile_hint:
  assumes "hintable a" and "z = [] \<or> hintDelim (hd z)"
  shows "takeWhile (\<lambda>c. \<not> hintDelim c) (a @ z) = a"
  using assms by (cases z) (auto simp: hintable_def list_all_iff takeWhile_append)

lemma strIndex_skip: "strIndex (''not leader, leader='' @ t) ''leader='' = Some 12"
  "strIndex (''follower read lease expired, leader='' @ t) ''leader='' = Some 29"
  by simp_all

lemma extract_hint:
  assumes "hintable a" and "z = [] \<or> hintDelim (hd z) \<and> graphic (last z)"
  shows "extractLeaderHint (Status c (''not leader, leader='' @ a @ z)) = Some a"
    and "extractLeaderHint (Status c (''follower read lease expired, leader='' @ a @ z)) = Some a"
proof -
  have "TrimSpace (a @ z) = a @ z" "takeWhile (\<lambda>c. \<not> hintDelim c) (a @ z) = a" "TrimSpace a = a" "a \<noteq> []"
    using assms hintable_trim [of a z] hintable_trim [of a "[]"] takeWhile_hint [of a z] by (auto simp: hintable_def)
  then show "extractLeaderHint (Status c (''not leader, leader='' @ a @ z)) = Some a"
    and "extractLeaderHint (Status c (''follower read lease expired, leader='' @ a @ z)) = Some a"
    unfolding extractLeaderHint_def grpcErr.case strIndex_skip option.case by (simp_all add: Let_def)
qed

lemma leader_errors:
  "isLeaderError (Status FailedPrecondition (''not leader, leader='' @ t))"
  "isLeaderError (Status FailedPrecondition (''follower read lease expired, leader='' @ t))"
  by (simp_all add: isLeaderError_def ToLower_def Contains_def char_of_def bit_0)

lemma TrimSpace_blank:
  assumes "graphic (hd s)" and "graphic (last s)" and "s \<noteq> []"
  shows "TrimSpace (CHR '' '' # s) = s"
proof -
  have "trimLeftSeqs space_seqs (CHR '' '' # s) = trimLeftSeqs space_seqs s"
    by (subst trimLeftSeqs.simps) (simp add: space_seqs_def)
  then have "TrimSpace (CHR '' '' # s) = TrimSpace s" by (simp add: TrimSpace_def)
  then show ?thesis using TrimSpace_graphic [OF assms] by simp
qed


text \<open>A read at a node that knows no leader sends the client astray. The refusal ends in
  \<^verbatim>\<open>leader= (use allow_stale=true ...)\<close>, from which the client extracts the hint \<^verbatim>\<open>(use\<close> and
  stores an address made of it as the leader's.\<close>

theorem unknown_leader_hint:
  assumes "\<not> IsLeader r" and "leader r = []" and "cl_seeds c = seed # rest" and "\<not> useBaseHost (baseHostOf seed)"
  shows "\<exists>err. Server_Get P now k False r d = Inl err \<and> extractLeaderHint err = Some ''(use'' \<and>
         afterError (leaderOps N c) 0 a err (c', w) = (c'\<lparr>cl_leaderAddr := '':(use''\<rparr>, nw_sleep N 50000000 w)"
proof -
  let ?m = "'' (use allow_stale=true for follower reads)''"
  let ?err = "Status FailedPrecondition (''not leader, leader='' @ ?m)"
  have h: "hintable ''(use''" by (simp add: hintable_def graphic_def hintDelim_def)
  have t: "TrimSpace ''(use'' = ''(use''" using hintable_trim [OF h, of "[]"] by simp
  have "TrimSpace ?m = tl ?m" using TrimSpace_blank [of "tl ?m"] by (simp add: graphic_def)
  then have x: "extractLeaderHint ?err = Some ''(use''"
    unfolding extractLeaderHint_def grpcErr.case strIndex_skip option.case
    by (simp add: t hintDelim_def)
  have "normalizeLeaderAddr seed ''(use'' = '':(use''"
    using assms(4) by (simp add: normalizeLeaderAddr_def t Contains_def Let_def)
  then have "afterError (leaderOps N c) 0 a ?err (c', w) = (c'\<lparr>cl_leaderAddr := '':(use''\<rparr>, nw_sleep N 50000000 w)"
    using x leader_errors(1) [of ?m] assms(3) by (simp add: afterError_def leaderOps_def del: append.simps)
  moreover have "Server_Get P now k False r d = Inl ?err"
    using assms(1,2) by (simp add: Server_Get_def LeaderID_def)
  ultimately show ?thesis using x by blast
qed

subsection \<open>The retry loop\<close>

text \<open>One round of the loop.\<close>

definition retryTarget :: "'s leaderClient \<Rightarrow> int \<Rightarrow> error + string \<Rightarrow> error + string" where
  "retryTarget C attempt res =
     (case res of
        Inr a \<Rightarrow> Inr a
      | Inl err \<Rightarrow> if attempt < int (length (lc_seeds C))
                  then Inr (lc_seeds C ! nat (attempt mod int (length (lc_seeds C)))) else Inl err)"

lemma retryLoop_end: "n \<le> attempt \<Longrightarrow> retryLoop C call n attempt e s = (s, Failed n e, [])"
  by (subst retryLoop.simps) simp

lemma retryLoop_nowhere:
  "attempt < n \<Longrightarrow> lc_getLeader C s = (s1, res) \<Longrightarrow> retryTarget C attempt res = Inl err \<Longrightarrow>
     retryLoop C call n attempt e s =
       retryLoop C call n (attempt + 1) (Some (PlainErr err)) (lc_sleep C ((attempt + 1) * 100000000) s1)"
  by (subst retryLoop.simps) (simp add: retryTarget_def Let_def)

lemma retryLoop_done:
  "attempt < n \<Longrightarrow> lc_getLeader C s = (s1, res) \<Longrightarrow> retryTarget C attempt res = Inr a \<Longrightarrow> call a s1 = (s2, Inr reply) \<Longrightarrow>
     retryLoop C call n attempt e s = (s2, Done reply, [a])"
  by (subst retryLoop.simps) (simp add: retryTarget_def Let_def)

lemma retryLoop_again:
  "attempt < n \<Longrightarrow> lc_getLeader C s = (s1, res) \<Longrightarrow> retryTarget C attempt res = Inr a \<Longrightarrow> call a s1 = (s2, Inl err) \<Longrightarrow>
     retryLoop C call n (attempt + 1) (Some err) (afterError C attempt a err s2) = (s', r, tried) \<Longrightarrow>
     retryLoop C call n attempt e s = (s', r, a # tried)"
  by (subst retryLoop.simps) (simp add: retryTarget_def Let_def)

definition boundedResult ::
  "(string \<Rightarrow> 's \<Rightarrow> 's \<times> (grpcErr + 'r)) \<Rightarrow> int \<Rightarrow> int \<Rightarrow> grpcErr option \<Rightarrow> 's \<times> 'r retryResult \<times> string list \<Rightarrow> bool"
where
  "boundedResult call n attempt e = (\<lambda>(s', res, tried).
     int (length tried) \<le> max 0 (n - attempt) \<and>
     (case res of
        Done reply \<Rightarrow> tried \<noteq> [] \<and> (\<exists>s0. call (last tried) s0 = (s', Inr reply))
      | Failed m e' \<Rightarrow> m = n \<and> (e' = None \<longleftrightarrow> e = None \<and> n \<le> attempt)))"

lemma boundedResult_weaken:
  "boundedResult call n (attempt + 1) (Some err) x \<Longrightarrow> attempt < n \<Longrightarrow> boundedResult call n attempt e x"
  by (auto simp: boundedResult_def split: retryResult.splits)

lemma boundedResult_Cons:
  "boundedResult call n (attempt + 1) (Some err) (s', r, tried) \<Longrightarrow> attempt < n \<Longrightarrow>
     boundedResult call n attempt e (s', r, a # tried)"
  by (auto simp: boundedResult_def split: retryResult.splits)

lemma retryLoop_bound: "boundedResult call n attempt e (retryLoop C call n attempt e s)"
proof (induction "nat (n - attempt)" arbitrary: attempt e s rule: less_induct)
  case less
  show ?case
  proof (cases "n \<le> attempt")
    case True
    then show ?thesis by (simp add: retryLoop_end boundedResult_def)
  next
    case False
    then have IH: "boundedResult call n (attempt + 1) e' (retryLoop C call n (attempt + 1) e' s')" for e' s'
      by (intro less.hyps) simp
    obtain s1 res where g: "lc_getLeader C s = (s1, res)" by fastforce
    have lt: "attempt < n" using False by simp
    show ?thesis
    proof (cases "retryTarget C attempt res")
      case (Inl err)
      show ?thesis unfolding retryLoop_nowhere [OF lt g Inl] by (rule boundedResult_weaken [OF IH lt])
    next
      case (Inr a)
      obtain s2 out where c: "call a s1 = (s2, out)" by fastforce
      show ?thesis
      proof (cases out)
        case (Inl err)
        obtain s' r tried where
          n: "retryLoop C call n (attempt + 1) (Some err) (afterError C attempt a err s2) = (s', r, tried)"
          by (rule prod_cases3)
        show ?thesis
          unfolding retryLoop_again [where call = call, OF lt g Inr c [unfolded Inl] n]
          using IH [of "Some err" "afterError C attempt a err s2"] lt unfolding n by (rule boundedResult_Cons)
      next
        case (Inr reply)
        show ?thesis
          unfolding retryLoop_done [where call = call, OF lt g \<open>retryTarget C attempt res = Inr a\<close> c [unfolded Inr]]
          using lt c Inr by (auto simp: boundedResult_def)
      qed
    qed
  qed
qed

text \<open>C38: the retries are bounded. An operation of the client ends after at most the
  configured number of calls; when it reports success, the last call it made succeeded with
  the reply it returns, and when it fails it has an error to report, unless no try was allowed
  at all.\<close>

theorem executeWithRetry_bounded:
  "case executeWithRetry N call s of
     (s', Done reply, tried) \<Rightarrow>
       int (length tried) \<le> cl_maxRetries (fst s) \<and> (\<exists>s0. call (last tried) s0 = (s', Inr reply))
   | (s', Failed m err, tried) \<Rightarrow>
       int (length tried) \<le> max 0 (cl_maxRetries (fst s)) \<and> m = cl_maxRetries (fst s) \<and> (err = None \<longleftrightarrow> m \<le> 0)"
proof -
  obtain s' res tried where r: "executeWithRetry N call s = (s', res, tried)" by (rule prod_cases3)
  have "boundedResult call (cl_maxRetries (fst s)) 0 None (s', res, tried)"
    unfolding r [symmetric] executeWithRetry_def by (rule retryLoop_bound)
  then show ?thesis by (cases res; cases tried) (auto simp: r boundedResult_def)
qed



subsection \<open>Reaching the leader\<close>

definition nodeAnswer :: "raft \<Rightarrow> sendResult" where
  "nodeAnswer r = Answer (rs_Status (raftStatus r)) (rs_Type (raftStatus r)) (rs_Body (raftStatus r))"

text \<open>The members of the object a node sends as its status.\<close>

definition statusMembers :: "raft \<Rightarrow> (string \<times> json) list" where
  "statusMembers r =
     [(''id'', JStr (id_r r)), (''state'', JStr (RaftState_String (state r))), (''term'', enc_int (term_r r)),
      (''leader_id'', JStr (leader r)), (''commit_index'', enc_int (commitIndex r)), (''last_applied'', enc_int (lastApplied r)),
      (''log_length'', enc_int (int (length (log_r r))))]"

lemma raftStatus_members: "raftStatus r = jsonReply 200 (JObj (statusMembers r))" "statusMembers r \<noteq> []"
  by (simp_all add: raftStatus_def enc_Status_def getStatus_def statusMembers_def)

lemma json_ok_status:
  assumes "reportable r"
  shows "json_ok (JObj (statusMembers r))"
proof -
  have "utf8_valid (RaftState_String (state r))" by (cases "state r") (simp_all add: utf8_valid_ascii)
  then show ?thesis using assms by (simp add: reportable_def statusMembers_def utf8_valid_ascii)
qed

lemma raftStatus_body:
  assumes "reportable r"
  shows "rs_Status (raftStatus r) = 200"
    and "Decode dec_leaderStatus (rs_Body (raftStatus r)) =
      Some \<lparr>ls_ID = id_r r, ls_State = RaftState_String (state r), ls_LeaderID = leader r\<rparr>"
    and "Decode (dec_field [''state''] ''state'') (rs_Body (raftStatus r)) = Some (RaftState_String (state r))"
proof -
  have D: "Decode f (rs_Body (raftStatus r)) = f (JObj (statusMembers r))" for f
    unfolding raftStatus_members(1) by (rule Decode_reply [OF json_ok_status [OF assms] raftStatus_members(2)])
  show "rs_Status (raftStatus r) = 200" by (simp add: raftStatus_members jsonReply_def)
  show "Decode dec_leaderStatus (rs_Body (raftStatus r)) =
      Some \<lparr>ls_ID = id_r r, ls_State = RaftState_String (state r), ls_LeaderID = leader r\<rparr>"
    unfolding D by (simp add: statusMembers_def dec_leaderStatus_def dec_struct_def put_leaderStatus_def dec_string_def fields_eval)
  show "Decode (dec_field [''state''] ''state'') (rs_Body (raftStatus r)) = Some (RaftState_String (state r))"
    unfolding D by (simp add: statusMembers_def dec_field_def dec_struct_def dec_string_def fields_eval)
qed

lemma findLeader_answer:
  assumes "nw_get N (statusURL (getHTTPAddr a)) w = (w', nodeAnswer r)" and "reportable r"
  shows "findLeaderFromNode N a w =
    (w', if state r = Leader then Inr a
         else if leader r \<noteq> [] then Inr (normalizeLeaderAddr a (leader r))
         else Inl (''node '' @ a @ '' does not know the leader''))"
  using raftStatus_body [OF assms(2)] assms(1)
  by (cases "state r") (simp_all add: findLeaderFromNode_def nodeAnswer_def)

lemma verifyLeader_answer:
  assumes "nw_get N (statusURL (getHTTPAddr a)) w = (w', nodeAnswer r)" and "reportable r"
  shows "verifyLeader N a w = (w', if state r = Leader then None else Some ''node is not leader'')"
  using raftStatus_body [OF assms(2)] assms(1)
  by (cases "state r") (simp_all add: verifyLeader_def nodeAnswer_def)


lemma hostPort_no_space: "list_all graphic h \<Longrightarrow> h \<noteq> [] \<Longrightarrow> 0 \<le> p \<Longrightarrow> TrimSpace (hostPort h p) = hostPort h p"
  using Itoa_nonneg [of p]
  by (intro TrimSpace_graphic) (auto simp: hostPort_def list_all_iff Itoa_def nat_dec_ne intro: graphic_digit)

lemma Contains_char: "c \<in> set s \<Longrightarrow> Contains s [c]"
  unfolding Contains_def by (induction s) (auto split: list.splits)

text \<open>Outside of the loopback host a leader's identifier is its address.\<close>

lemma normalizeLeaderAddr_hostPort:
  assumes "plain_host h" and "h \<noteq> []" and "list_all graphic h" and "0 \<le> p" and "\<not> useBaseHost (baseHostOf a)"
  shows "normalizeLeaderAddr a (hostPort h p) = hostPort h p"
proof -
  have "\<not> HasPrefix (hostPort h p) '':''" using assms(1,2) by (cases h) (auto simp: hostPort_def plain_host_def)
  moreover have "Contains (hostPort h p) '':''" by (rule Contains_char) (simp add: hostPort_def)
  moreover have "Cut (hostPort h p) (CHR '':'') = (h, Itoa p, True)"
    using assms(1) Cut_app [of "CHR '':''" h "Itoa p"] by (simp add: hostPort_def plain_host_def)
  ultimately show ?thesis
    using assms hostPort_no_space [OF assms(3,2,4)] by (simp add: normalizeLeaderAddr_def Let_def)
qed

text \<open>What the retry loop relies on: an address that was stored as the leader's, and that
  still leads when it is asked, is the one the next try goes to.\<close>

locale redirecting_client =
  fixes C :: "'s leaderClient" and leads :: "string \<Rightarrow> 's \<Rightarrow> 's \<Rightarrow> bool"
  assumes stored_leader:
    "a \<noteq> [] \<Longrightarrow> leads a (lc_sleep C d (lc_setLeader C a s)) s' \<Longrightarrow>
       lc_getLeader C (lc_sleep C d (lc_setLeader C a s)) = (s', Inr a)"
begin

lemma follows_hint:
  assumes "2 \<le> n" and "lc_getLeader C s = (s1, res)" and "retryTarget C 0 res = Inr b"
    and "call b s1 = (s2, Inl err)" and "isLeaderError err" and "extractLeaderHint err = Some hint"
    and "lc_seeds C = seed # rest" and "lc_normalize C seed hint = a" and "a \<noteq> []"
    and "leads a (lc_sleep C 50000000 (lc_setLeader C a s2)) s3"
    and "call a s3 = (s', Inr reply)"
  shows "retryLoop C call n 0 None s = (s', Done reply, [b, a])"
proof -
  let ?s = "lc_sleep C 50000000 (lc_setLeader C a s2)"
  have e: "afterError C 0 b err s2 = ?s" using assms(5-8) by (simp add: afterError_def)
  have g: "lc_getLeader C ?s = (s3, Inr a)" using assms(9,10) by (rule stored_leader)
  have "retryLoop C call n (0 + 1) (Some err) ?s = (s', Done reply, [a])"
    by (rule retryLoop_done [where call = call, OF _ g _ assms(11)]) (use assms(1) in \<open>simp_all add: retryTarget_def\<close>)
  then show ?thesis
    by (intro retryLoop_again [where call = call, OF _ assms(2-4)]) (use assms(1) e in simp_all)
qed

end

definition leads_lib :: "'w network \<Rightarrow> string \<Rightarrow> client \<times> 'w \<Rightarrow> client \<times> 'w \<Rightarrow> bool" where
  "leads_lib N a s s' \<longleftrightarrow> fst s' = fst s \<and> verifyLeader N a (snd s) = (snd s', None)"

interpretation lib: redirecting_client "leaderOps N c" "leads_lib N" for N :: "'w network" and c
proof
  fix a d and s s' :: "client \<times> 'w"
  assume "a \<noteq> []" and "leads_lib N a (lc_sleep (leaderOps N c) d (lc_setLeader (leaderOps N c) a s)) s'"
  then show "lc_getLeader (leaderOps N c) (lc_sleep (leaderOps N c) d (lc_setLeader (leaderOps N c) a s)) = (s', Inr a)"
    by (cases s; cases s') (simp add: leaderOps_def leads_lib_def getLeader_def Let_def)
qed

text \<open>A server's refusal carries the leader's address to the client.\<close>

lemma hintable_hostPort:
  assumes "hintable h" and "0 \<le> p"
  shows "hintable (hostPort h p)"
proof -
  have "graphic c \<and> \<not> hintDelim c" if "is_digit c" for c
    using that by (auto simp: hintDelim_def is_digit_def intro: graphic_digit)
  then have "list_all (\<lambda>c. graphic c \<and> \<not> hintDelim c) (Itoa p)"
    using Itoa_nonneg [OF assms(2)] by (simp add: list_all_iff)
  then show ?thesis using assms(1) by (simp add: hintable_def hostPort_def hintDelim_def graphic_def)
qed

lemma notLeader_hint:
  "hintable (leader f) \<Longrightarrow> extractLeaderHint (notLeader f) = Some (leader f)" "isLeaderError (notLeader f)"
  using extract_hint(1) [of "leader f" "[]"] leader_errors(1) by (simp_all add: notLeader_def LeaderID_def del: append.simps)


text \<open>A cluster of two nodes of which only the leader answers the status request.\<close>

definition redirecting :: raft where
  "redirecting = (replica ''n2:4000'')\<lparr>leader := ''n1:4000''\<rparr>"

definition twoNodes :: "unit network" where
  "twoNodes =
     \<lparr>nw_get = (\<lambda>url w. (w, if url = statusURL ''n1:4001'' then nodeAnswer soloLeader else DoErr ''refused'')),
      nw_post = (\<lambda>url w. (w, DoErr ''refused'')),
      nw_dial = (\<lambda>addr w. (w, Inr (if addr = ''n1:4000'' then 1 else 2))),
      nw_usable = (\<lambda>conn w. True),
      nw_call = (\<lambda>conn x w. (w, if conn = 1 then Inr PutReply else Inl (notLeader redirecting))),
      nw_admin = (\<lambda>conn x w. (w, Inl (PlainErr ''unavailable''))),
      nw_close = (\<lambda>conn w. w), nw_sleep = (\<lambda>d w. w)\<rparr>"

definition freshClient :: client where
  "freshClient = \<lparr>cl_conns = Map.empty, cl_leaderAddr = [], cl_seeds = [''n2:4000''], cl_connTimeout = 3000000000,
     cl_reqTimeout = 5000000000, cl_maxRetries = 3\<rparr>"

lemma freshClient_New: "client_New [''n2:4000''] = Inr freshClient"
  by (simp add: client_New_def NewWithConfig_def freshClient_def)

lemma Itoa_http: "Itoa 4000 = ''4000''" "Itoa 4001 = ''4001''"
  by (simp_all add: Itoa_def nat_dec.simps digit_char_def char_of_def bit_0)


end
