(* ===== verification/Command_Line.thy ===== *)
theory Command_Line
  imports Client_Library
begin

section \<open>The command line client\<close>

text \<open>
  \<^verbatim>\<open>cmd/mimorictl\<close>: the connection manager with its own discovery of the leader, and the
  commands. The retry loop, the recognition of leader errors and the connection table are
  those of the client library, whose text the sources repeat. A command that ends in
  \<^verbatim>\<open>log.Fatalf\<close> gives \<open>Inl\<close> of the message. The order in which Go visits the table of
  connections is an argument.
\<close>

subsection \<open>Connections and the leader\<close>

definition splitAddrList :: "string \<Rightarrow> string list" where
  "splitAddrList addrList = filter (\<lambda>p. p \<noteq> []) (map TrimSpace (Split addrList (CHR '','')))"

record clientManager =
  cm_conns :: connTable
  cm_leaderAddr :: string
  cm_initialAddrs :: "string list"
  cm_connTimeout :: int
  cm_reqTimeout :: int

definition newClientManager :: "string \<Rightarrow> clientManager" where
  "newClientManager initialAddr =
     (let as = splitAddrList initialAddr in
      \<lparr>cm_conns = Map.empty, cm_leaderAddr = [], cm_initialAddrs = (if as = [] then [initialAddr] else as),
       cm_connTimeout = 3000000000, cm_reqTimeout = 3000000000\<rparr>)"

definition cm_getConnection ::
  "'w network \<Rightarrow> string \<Rightarrow> clientManager \<times> 'w \<Rightarrow> (clientManager \<times> 'w) \<times> (error + nat)"
where
  "cm_getConnection N addr = (\<lambda>(c, w).
     let ((cs, w1), res) = cachedConnection N addr (cm_conns c, w) in ((c\<lparr>cm_conns := cs\<rparr>, w1), res))"

definition cm_close :: "'w network \<Rightarrow> string list \<Rightarrow> clientManager \<times> 'w \<Rightarrow> clientManager \<times> 'w" where
  "cm_close N order = (\<lambda>(c, w).
     (c\<lparr>cm_conns := Map.empty\<rparr>,
      foldl (\<lambda>w addr. case cm_conns c addr of None \<Rightarrow> w | Some conn \<Rightarrow> nw_close N conn w) w order))"

definition cm_findLeaderFromNode :: "'w network \<Rightarrow> string \<Rightarrow> 'w \<Rightarrow> 'w \<times> (error + string)" where
  "cm_findLeaderFromNode N addr w =
     (case nw_get N (statusURL (getHTTPAddr_ctl addr)) w of
        (w1, BuildErr err) \<Rightarrow> (w1, Inl err)
      | (w1, DoErr err) \<Rightarrow> (w1, Inl err)
      | (w1, Answer st ct body) \<Rightarrow>
          (w1, if st \<noteq> 200 then Inl (''status check failed: '' @ Itoa st)
               else case Decode dec_leaderStatus body of
                 None \<Rightarrow> Inl ''invalid status''
               | Some s \<Rightarrow>
                   if ls_State s = ''leader'' then Inr addr
                   else if ls_LeaderID s \<noteq> [] then Inr (normalizeLeaderAddr_ctl addr (ls_LeaderID s))
                   else Inl (''node '' @ addr @ '' does not know the leader'')))"

definition cm_verifyLeader :: "'w network \<Rightarrow> string \<Rightarrow> 'w \<Rightarrow> 'w \<times> error option" where
  "cm_verifyLeader N addr w =
     (case nw_get N (statusURL (getHTTPAddr_ctl addr)) w of
        (w1, BuildErr err) \<Rightarrow> (w1, Some err)
      | (w1, DoErr err) \<Rightarrow> (w1, Some err)
      | (w1, Answer st ct body) \<Rightarrow>
          (w1, if st \<noteq> 200 then Some ''status check failed''
               else case Decode (dec_field [''state''] ''state'') body of
                 None \<Rightarrow> Some ''invalid status''
               | Some x \<Rightarrow> if x \<noteq> ''leader'' then Some ''node is not leader'' else None))"

fun askAddrs :: "'w network \<Rightarrow> string list \<Rightarrow> 'w \<Rightarrow> 'w \<times> string option" where
  "askAddrs N [] w = (w, None)"
| "askAddrs N (addr # addrs) w =
     (case cm_findLeaderFromNode N addr w of
        (w1, Inr lead) \<Rightarrow> if lead \<noteq> [] then (w1, Some lead) else askAddrs N addrs w1
      | (w1, Inl err) \<Rightarrow> askAddrs N addrs w1)"

definition tryAll ::
  "'w network \<Rightarrow> (connTable \<Rightarrow> string list) \<Rightarrow> clientManager \<times> 'w \<Rightarrow> (clientManager \<times> 'w) \<times> (error + string)"
where
  "tryAll N order = (\<lambda>(c, w).
     case askAddrs N (cm_initialAddrs c @ order (cm_conns c)) w of
       (w1, Some lead) \<Rightarrow> ((c\<lparr>cm_leaderAddr := lead\<rparr>, w1), Inr lead)
     | (w1, None) \<Rightarrow> ((c, w1), Inl ''could not discover leader from any node''))"

definition cm_discoverLeader ::
  "'w network \<Rightarrow> (connTable \<Rightarrow> string list) \<Rightarrow> clientManager \<times> 'w \<Rightarrow> (clientManager \<times> 'w) \<times> (error + string)"
where
  "cm_discoverLeader N order = (\<lambda>(c, w).
     let lead = cm_leaderAddr c in
     if lead \<noteq> [] then
       (case cm_verifyLeader N lead w of
          (w1, None) \<Rightarrow> ((c, w1), Inr lead)
        | (w1, Some err) \<Rightarrow> tryAll N order (c\<lparr>cm_leaderAddr := []\<rparr>, w1))
     else tryAll N order (c, w))"

definition cm_getLeader ::
  "'w network \<Rightarrow> (connTable \<Rightarrow> string list) \<Rightarrow> clientManager \<times> 'w \<Rightarrow> (clientManager \<times> 'w) \<times> (error + string)"
where
  "cm_getLeader N order = (\<lambda>(c, w).
     let cached = cm_leaderAddr c in
     if cached \<noteq> [] then
       (case cm_verifyLeader N cached w of
          (w1, None) \<Rightarrow> ((c, w1), Inr cached)
        | (w1, Some err) \<Rightarrow> cm_discoverLeader N order (c\<lparr>cm_leaderAddr := []\<rparr>, w1))
     else cm_discoverLeader N order (c, w))"

definition managerOps ::
  "'w network \<Rightarrow> (connTable \<Rightarrow> string list) \<Rightarrow> clientManager \<Rightarrow> (clientManager \<times> 'w) leaderClient"
where
  "managerOps N order c =
     \<lparr>lc_getLeader = cm_getLeader N order, lc_seeds = cm_initialAddrs c, lc_normalize = normalizeLeaderAddr_ctl,
      lc_setLeader = (\<lambda>a (c, w). (c\<lparr>cm_leaderAddr := a\<rparr>, w)), lc_sleep = (\<lambda>d (c, w). (c, nw_sleep N d w))\<rparr>"

definition cm_executeWithRetry ::
  "'w network \<Rightarrow> (connTable \<Rightarrow> string list) \<Rightarrow>
     (string \<Rightarrow> clientManager \<times> 'w \<Rightarrow> (clientManager \<times> 'w) \<times> (grpcErr + 'r)) \<Rightarrow> int \<Rightarrow> clientManager \<times> 'w \<Rightarrow>
     (clientManager \<times> 'w) \<times> 'r retryResult \<times> string list"
where
  "cm_executeWithRetry N order call maxRetries s = retryLoop (managerOps N order (fst s)) call maxRetries 0 None s"

subsection \<open>Seeds\<close>

text \<open>\<open>addr\<close> is the flag; the environment takes precedence.\<close>

definition seedText :: "(string \<rightharpoonup> string) \<Rightarrow> string \<Rightarrow> string" where
  "seedText getenv addr = env getenv ''MIMORI_SEEDS'' (env getenv ''MIMORI_ADDRS'' addr)"

definition getClientManager :: "(string \<rightharpoonup> string) \<Rightarrow> string \<Rightarrow> clientManager" where
  "getClientManager getenv addr = newClientManager (seedText getenv addr)"

definition seedAddrs :: "(string \<rightharpoonup> string) \<Rightarrow> string \<Rightarrow> string list" where
  "seedAddrs getenv addr =
     (let raw = seedText getenv addr; seeds = splitAddrList raw in
      if seeds = [] \<and> TrimSpace raw \<noteq> [] then [TrimSpace raw] else seeds)"

definition defaultAddr :: string where
  "defaultAddr = ''127.0.0.1:4000,127.0.0.1:4002,127.0.0.1:4004''"

subsection \<open>Commands on keys\<close>

definition cm_kvRequest ::
  "'w network \<Rightarrow> kvCall \<Rightarrow> string \<Rightarrow> clientManager \<times> 'w \<Rightarrow> (clientManager \<times> 'w) \<times> (grpcErr + kvReply)"
where
  "cm_kvRequest N x addr s =
     (case cm_getConnection N addr s of
        (s1, Inl err) \<Rightarrow> (s1, Inl (PlainErr err))
      | ((c1, w1), Inr conn) \<Rightarrow> (case nw_call N conn x w1 of (w2, res) \<Rightarrow> ((c1, w2), res)))"

definition doPut ::
  "'w network \<Rightarrow> (connTable \<Rightarrow> string list) \<Rightarrow> bytes \<Rightarrow> bytes \<Rightarrow> clientManager \<times> 'w \<Rightarrow>
     (clientManager \<times> 'w) \<times> kvReply retryResult \<times> string list"
where
  "doPut N order key val = cm_executeWithRetry N order (cm_kvRequest N (CallPut key val)) 3"

definition doDelete ::
  "'w network \<Rightarrow> (connTable \<Rightarrow> string list) \<Rightarrow> bytes \<Rightarrow> clientManager \<times> 'w \<Rightarrow>
     (clientManager \<times> 'w) \<times> kvReply retryResult \<times> string list"
where
  "doDelete N order key = cm_executeWithRetry N order (cm_kvRequest N (CallDelete key)) 3"

text \<open>\<open>describe\<close> is the text \<^verbatim>\<open>%v\<close> gives for an error. A call is answered by a reply of its own
  kind; the other replies give no output.\<close>

definition getCmd ::
  "(grpcErr option \<Rightarrow> string) \<Rightarrow> 'w network \<Rightarrow> (connTable \<Rightarrow> string list) \<Rightarrow> bool \<Rightarrow> string \<Rightarrow>
     clientManager \<times> 'w \<Rightarrow> (clientManager \<times> 'w) \<times> (string + string)"
where
  "getCmd describe N order allowStale key s =
     (case cm_executeWithRetry N order (cm_kvRequest N (CallGet key allowStale)) 3 s of
        (s1, Failed n err, tried) \<Rightarrow>
          (s1, Inl (''get failed: operation failed after '' @ Itoa n @ '' retries: '' @ describe err))
      | (s1, Done (GetReply val found), tried) \<Rightarrow> (s1, Inr (if found then val @ newline else ''(nil)'' @ newline))
      | (s1, Done _, tried) \<Rightarrow> (s1, Inr []))"

definition healthCmd ::
  "(grpcErr option \<Rightarrow> string) \<Rightarrow> 'w network \<Rightarrow> (connTable \<Rightarrow> string list) \<Rightarrow> string \<Rightarrow>
     clientManager \<times> 'w \<Rightarrow> (clientManager \<times> 'w) \<times> (string + string)"
where
  "healthCmd describe N order addr s =
     (let (s1, res) = cm_getLeader N order s; leaderAddr = (case res of Inr a \<Rightarrow> a | Inl err \<Rightarrow> addr) in
      case cm_kvRequest N CallHealth leaderAddr s1 of
        (s2, Inl err) \<Rightarrow> (s2, Inl (''health check failed: '' @ describe (Some err)))
      | (s2, Inr (HealthReply st)) \<Rightarrow> (s2, Inr (st @ newline))
      | (s2, Inr _) \<Rightarrow> (s2, Inr []))"

subsection \<open>Commands on the cluster\<close>

definition cm_adminRequest ::
  "'w network \<Rightarrow> adminCall \<Rightarrow> string \<Rightarrow> clientManager \<times> 'w \<Rightarrow> (clientManager \<times> 'w) \<times> (grpcErr + unit)"
where
  "cm_adminRequest N x addr s =
     (case cm_getConnection N addr s of
        (s1, Inl err) \<Rightarrow> (s1, Inl (PlainErr err))
      | ((c1, w1), Inr conn) \<Rightarrow>
          (case nw_admin N conn x w1 of
             (w2, Inl err) \<Rightarrow> ((c1, w2), Inl err)
           | (w2, Inr resp) \<Rightarrow> ((c1, w2), if \<not> adm_Success resp then Inl (PlainErr (adm_Error resp)) else Inr ())))"

definition doAddNode ::
  "'w network \<Rightarrow> (connTable \<Rightarrow> string list) \<Rightarrow> string \<Rightarrow> clientManager \<times> 'w \<Rightarrow>
     (clientManager \<times> 'w) \<times> unit retryResult \<times> string list"
where
  "doAddNode N order nodeID = cm_executeWithRetry N order (cm_adminRequest N (CallAddNode nodeID)) 3"

definition doRemoveNode ::
  "'w network \<Rightarrow> (connTable \<Rightarrow> string list) \<Rightarrow> string \<Rightarrow> clientManager \<times> 'w \<Rightarrow>
     (clientManager \<times> 'w) \<times> unit retryResult \<times> string list"
where
  "doRemoveNode N order nodeID = cm_executeWithRetry N order (cm_adminRequest N (CallRemoveNode nodeID)) 3"

definition doTransferLeadership ::
  "'w network \<Rightarrow> (connTable \<Rightarrow> string list) \<Rightarrow> string \<Rightarrow> clientManager \<times> 'w \<Rightarrow>
     (clientManager \<times> 'w) \<times> unit retryResult \<times> string list"
where
  "doTransferLeadership N order targetID =
     cm_executeWithRetry N order (cm_adminRequest N (CallTransferLeadership targetID)) 3"

subsection \<open>Commands over HTTP\<close>

fun getFromSeeds :: "'w network \<Rightarrow> string \<Rightarrow> string list \<Rightarrow> string \<Rightarrow> 'w \<Rightarrow> 'w \<times> (string + string)" where
  "getFromSeeds N path [] lastErr w = (w, Inl lastErr)"
| "getFromSeeds N path (seed # seeds) lastErr w =
     (case nw_get N (''http://'' @ getHTTPAddr_ctl seed @ path) w of
        (w1, BuildErr err) \<Rightarrow> getFromSeeds N path seeds err w1
      | (w1, DoErr err) \<Rightarrow> getFromSeeds N path seeds err w1
      | (w1, Answer st ct b) \<Rightarrow>
          if st \<noteq> 200 then getFromSeeds N path seeds (''http '' @ Itoa st @ '': '' @ b) w1 else (w1, Inr b))"

definition mustHTTPGetFromSeeds :: "'w network \<Rightarrow> string list \<Rightarrow> string \<Rightarrow> 'w \<Rightarrow> 'w \<times> (string + string)" where
  "mustHTTPGetFromSeeds N seeds path w =
     (if seeds = [] then (w, Inl ''no --addr provided'')
      else case getFromSeeds N path seeds ''<nil>'' w of
        (w1, Inl err) \<Rightarrow> (w1, Inl (''failed to fetch '' @ path @ '' from any seed: '' @ err))
      | (w1, Inr b) \<Rightarrow> (w1, Inr b))"

text \<open>Compared with a word of ASCII letters other than \<^verbatim>\<open>k\<close> and \<^verbatim>\<open>s\<close>, case folding is that of
  ASCII.\<close>

definition EqualFold :: "string \<Rightarrow> string \<Rightarrow> bool" where
  "EqualFold s t \<longleftrightarrow> fold_name s = fold_name t"

definition dec_seedStatus :: "json \<Rightarrow> leaderStatus option" where
  "dec_seedStatus = dec_struct [''state'', ''leader_id''] put_leaderStatus \<lparr>ls_ID = [], ls_State = [], ls_LeaderID = []\<rparr>"

fun leaderFromSeeds :: "'w network \<Rightarrow> string list \<Rightarrow> string \<Rightarrow> 'w \<Rightarrow> 'w \<times> (string + string)" where
  "leaderFromSeeds N [] lastErr w = (w, Inl lastErr)"
| "leaderFromSeeds N (seed # seeds) lastErr w =
     (case nw_get N (statusURL (getHTTPAddr_ctl seed)) w of
        (w1, BuildErr err) \<Rightarrow> leaderFromSeeds N seeds err w1
      | (w1, DoErr err) \<Rightarrow> leaderFromSeeds N seeds err w1
      | (w1, Answer st ct body) \<Rightarrow>
          if st \<noteq> 200 then leaderFromSeeds N seeds (''http '' @ Itoa st @ '': '' @ body) w1
          else case Unmarshal dec_seedStatus body of
            None \<Rightarrow> leaderFromSeeds N seeds ''invalid status'' w1
          | Some x \<Rightarrow>
              if EqualFold (ls_State x) ''leader'' then (w1, Inr seed)
              else if ls_LeaderID x \<noteq> [] then (w1, Inr (normalizeLeaderAddr_ctl seed (ls_LeaderID x)))
              else leaderFromSeeds N seeds (''seed '' @ seed @ '' does not know leader'') w1)"

definition mustDiscoverLeaderFromSeeds :: "'w network \<Rightarrow> string list \<Rightarrow> 'w \<Rightarrow> 'w \<times> (string + string)" where
  "mustDiscoverLeaderFromSeeds N seeds w =
     (if seeds = [] then (w, Inl ''no --addr provided'')
      else case leaderFromSeeds N seeds ''<nil>'' w of
        (w1, Inl err) \<Rightarrow> (w1, Inl (''failed to discover leader from any seed: '' @ err))
      | (w1, Inr a) \<Rightarrow> (w1, Inr a))"

definition keyMetrics :: "string list" where
  "keyMetrics = [''raft_node_is_leader'', ''raft_term'', ''raft_commit_index'', ''raft_last_applied_index'',
     ''raft_log_length'', ''raft_proposals_total'', ''raft_applied_total'', ''raft_snapshots_created_total'']"

definition metricLines :: "string \<Rightarrow> string list" where
  "metricLines body =
     filter (\<lambda>line. \<exists>m \<in> set keyMetrics. HasPrefix line m \<and> \<not> HasPrefix line ''#'') (Split body (CHR 0x0A))"

definition extractLeaderAddr :: "string \<Rightarrow> string option" where
  "extractLeaderAddr msg =
     (case strIndex msg ''leader='' of
        None \<Rightarrow> None
      | Some idx \<Rightarrow> let lead = TrimSpace (drop (idx + 7) msg) in if lead = [] then None else Some lead)"


text \<open>\<^verbatim>\<open>json.Unmarshal\<close> into a map, and what \<^verbatim>\<open>%v\<close> prints of its values; numbers are the
  integers of a status.\<close>

definition dec_map :: "json \<Rightarrow> (string \<rightharpoonup> json) option" where
  "dec_map v = (case v of JObj ms \<Rightarrow> Some (map_of (rev ms)) | JNull \<Rightarrow> Some Map.empty | _ \<Rightarrow> None)"

fun fmtV :: "json \<Rightarrow> string" where
  "fmtV JNull = ''<nil>''"
| "fmtV (JBool b) = (if b then ''true'' else ''false'')"
| "fmtV (JNum t) = t"
| "fmtV (JStr s) = s"
| "fmtV (JArr vs) = ''['' @ join '' '' (map fmtV vs) @ '']''"
| "fmtV (JObj ms) =
     ''map['' @ join '' '' (map (\<lambda>(k, t). k @ '':'' @ t)
        (sort_key fst (AList.clearjunk (rev (map (\<lambda>(k, v). (k, fmtV v)) ms))))) @ '']''"

definition fmtField :: "(string \<rightharpoonup> json) \<Rightarrow> string \<Rightarrow> string" where
  "fmtField m k = (case m k of None \<Rightarrow> ''<nil>'' | Some v \<Rightarrow> fmtV v)"

definition statusText :: "string \<Rightarrow> string" where
  "statusText body =
     (case Unmarshal dec_map body of
        None \<Rightarrow> body @ newline
      | Some st \<Rightarrow>
          ''Node ID:      '' @ fmtField st ''id'' @ newline @ ''State:        '' @ fmtField st ''state'' @ newline @
          ''Term:         '' @ fmtField st ''term'' @ newline @ ''Leader ID:    '' @ fmtField st ''leader_id'' @ newline @
          ''Commit Index: '' @ fmtField st ''commit_index'' @ newline @ ''Last Applied: '' @ fmtField st ''last_applied'' @ newline @
          ''Log Length:   '' @ fmtField st ''log_length'' @ newline)"

definition statusCmd :: "'w network \<Rightarrow> string list \<Rightarrow> 'w \<Rightarrow> 'w \<times> (string + string)" where
  "statusCmd N seeds w =
     (case mustHTTPGetFromSeeds N seeds ''/raft/status'' w of
        (w1, Inl err) \<Rightarrow> (w1, Inl err)
      | (w1, Inr body) \<Rightarrow> (w1, Inr (statusText body)))"

definition metricsCmd :: "'w network \<Rightarrow> string list \<Rightarrow> 'w \<Rightarrow> 'w \<times> (string + string)" where
  "metricsCmd N seeds w =
     (case mustHTTPGetFromSeeds N seeds ''/metrics'' w of
        (w1, Inl err) \<Rightarrow> (w1, Inl err)
      | (w1, Inr body) \<Rightarrow>
          (w1, Inr (''Key Raft Metrics:'' @ newline @ ''=================='' @ newline @
                    concat (map (\<lambda>line. line @ newline) (metricLines body)))))"

definition leaderText :: "string \<Rightarrow> string + string" where
  "leaderText body =
     (case Unmarshal dec_map body of
        None \<Rightarrow> Inl ''failed to parse status: invalid status''
      | Some st \<Rightarrow>
          if st ''leader_id'' = Some (JStr []) then Inr (''No leader elected'' @ newline)
          else Inr (''Leader ID: '' @ fmtField st ''leader_id'' @ newline @
                    ''This node ('' @ fmtField st ''id'' @
                    (if st ''state'' = Some (JStr ''leader'') then '') is the leader'' else '') is a follower'') @ newline @
                    ''Term: '' @ fmtField st ''term'' @ newline))"

definition leaderCmd :: "'w network \<Rightarrow> string list \<Rightarrow> 'w \<Rightarrow> 'w \<times> (string + string)" where
  "leaderCmd N seeds w =
     (case mustHTTPGetFromSeeds N seeds ''/raft/status'' w of
        (w1, Inl err) \<Rightarrow> (w1, Inl err)
      | (w1, Inr body) \<Rightarrow> (w1, leaderText body))"

definition snapshotCmd :: "'w network \<Rightarrow> string list \<Rightarrow> 'w \<Rightarrow> 'w \<times> (string + string)" where
  "snapshotCmd N seeds w =
     (case mustDiscoverLeaderFromSeeds N seeds w of
        (w1, Inl err) \<Rightarrow> (w1, Inl err)
      | (w1, Inr leaderGRPC) \<Rightarrow>
          (case nw_post N (''http://'' @ getHTTPAddr_ctl leaderGRPC @ ''/raft/snapshot'') w1 of
             (w2, BuildErr err) \<Rightarrow> (w2, Inl (''failed to create snapshot: '' @ err))
           | (w2, DoErr err) \<Rightarrow> (w2, Inl (''failed to create snapshot: '' @ err))
           | (w2, Answer st ct body) \<Rightarrow>
               (w2, if st = 412 then
                      (let m = (case Unmarshal dec_map body of None \<Rightarrow> Map.empty | Some m \<Rightarrow> m) in
                       Inl (''snapshot failed: '' @ fmtField m ''error'' @ '' (leader is '' @ fmtField m ''leader_id'' @ '')''))
                    else if st \<noteq> 200 then Inl (''snapshot failed: '' @ body)
                    else Inr (''Snapshot created successfully'' @ newline))))"

subsection \<open>Both ways to find the leader agree\<close>

lemma Unmarshal_reply:
  assumes "json_ok (JObj ms)" and "ms \<noteq> []"
  shows "Unmarshal f (rs_Body (jsonReply n (JObj ms))) = f (JObj ms)"
proof -
  let ?s = "json_print (JObj ms) @ newline"
  have "parse_value (Suc (2 * length ?s + 1)) ?s = Some (JObj ms, newline)"
    using assms by (intro parse_value_object) (simp_all del: json_print.simps)
  then show ?thesis
    by (simp add: Unmarshal_def json_parse_def jsonReply_def newline_def ws_def del: json_print.simps parse_value.simps)
qed

lemma seedStatus_body:
  assumes "reportable r"
  shows "Unmarshal dec_seedStatus (rs_Body (raftStatus r)) =
    Some \<lparr>ls_ID = [], ls_State = RaftState_String (state r), ls_LeaderID = leader r\<rparr>"
proof -
  have "Unmarshal dec_seedStatus (rs_Body (raftStatus r)) = dec_seedStatus (JObj (statusMembers r))"
    unfolding raftStatus_members(1) by (rule Unmarshal_reply [OF json_ok_status [OF assms] raftStatus_members(2)])
  then show ?thesis
    by (simp add: statusMembers_def dec_seedStatus_def dec_struct_def put_leaderStatus_def dec_string_def fields_eval)
qed

lemma EqualFold_state: "EqualFold (RaftState_String st) ''leader'' \<longleftrightarrow> st = Leader"
  by (cases st) (simp_all add: EqualFold_def fields_eval)

lemma RaftState_String_leader: "RaftState_String st = ''leader'' \<longleftrightarrow> st = Leader"
  by (cases st) simp_all

lemma normalize_ctl_nonempty: "TrimSpace hint \<noteq> [] \<Longrightarrow> normalizeLeaderAddr_ctl a hint \<noteq> []"
  by (auto simp: normalizeLeaderAddr_ctl_def hostPort_def Let_def split: prod.split)

text \<open>Every answer to a status request is an error or the status of some node.\<close>

definition orderly :: "'w network \<Rightarrow> bool" where
  "orderly N \<longleftrightarrow> (\<forall>url w st ct body. snd (nw_get N url w) = Answer st ct body \<longrightarrow>
     st \<noteq> 200 \<or> (\<exists>r. reportable r \<and> Answer st ct body = nodeAnswer r \<and> (leader r = [] \<or> hintable (leader r))))"

text \<open>The outcomes of asking one node, for both ways.\<close>

lemma orderly_cases:
  assumes "orderly N" and nonempty: "a \<noteq> []"
  obtains (fails) w' err where "\<And>l es. leaderFromSeeds N (a # l) es w = leaderFromSeeds N l err w'"
      "\<And>l. askAddrs N (a # l) w = askAddrs N l w'"
  | (found) w' b where "\<And>l es. leaderFromSeeds N (a # l) es w = (w', Inr b)" "\<And>l. askAddrs N (a # l) w = (w', Some b)"
proof -
  obtain w' res where g: "nw_get N (statusURL (getHTTPAddr_ctl a)) w = (w', res)" by fastforce
  show thesis
  proof (cases res)
    case (Answer st ct body)
    show ?thesis
    proof (cases "st = 200")
      case True
      with assms(1) g Answer obtain r where r: "reportable r" "res = nodeAnswer r" "leader r = [] \<or> hintable (leader r)"
        unfolding orderly_def by (metis snd_conv)
      have t: "hintable (leader r) \<Longrightarrow> normalizeLeaderAddr_ctl a (leader r) \<noteq> []"
        using hintable_trim [of "leader r" "[]"] by (intro normalize_ctl_nonempty) (auto simp: hintable_def)
      note s = g [unfolded r(2) nodeAnswer_def] raftStatus_body(1,2) [OF r(1)] seedStatus_body [OF r(1)] EqualFold_state RaftState_String_leader
      consider "state r = Leader" | "state r \<noteq> Leader" "leader r = []" | "state r \<noteq> Leader" "hintable (leader r)"
        using r(3) by blast
      then show ?thesis
      proof cases
        case 1
        then show ?thesis using nonempty by (intro found [of w' a]) (simp_all add: s cm_findLeaderFromNode_def EqualFold_def)
      next
        case 2
        then show ?thesis
          by (intro fails [of "''seed '' @ a @ '' does not know leader''" w']) (simp_all add: s cm_findLeaderFromNode_def)
      next
        case 3
        moreover from this(2) have "leader r \<noteq> []" by (simp add: hintable_def)
        ultimately show ?thesis
          using t by (intro found [of w' "normalizeLeaderAddr_ctl a (leader r)"]) (simp_all add: s cm_findLeaderFromNode_def)
      qed
    next
      case False
      then show ?thesis using g Answer by (intro fails [of "''http '' @ Itoa st @ '': '' @ body" w']) (simp_all add: cm_findLeaderFromNode_def)
    qed
  qed (use g fails in \<open>simp_all add: cm_findLeaderFromNode_def\<close>)
qed


lemma discovery_agrees:
  assumes "orderly N" and "list_all (\<lambda>a. a \<noteq> []) seeds"
  shows "case leaderFromSeeds N seeds es w of
           (w', Inr a) \<Rightarrow> askAddrs N seeds w = (w', Some a)
         | (w', Inl err) \<Rightarrow> askAddrs N seeds w = (w', None)"
  using assms(2)
proof (induction seeds arbitrary: es w)
  case (Cons a seeds)
  then have "a \<noteq> []" and l: "list_all (\<lambda>a. a \<noteq> []) seeds" by simp_all
  from assms(1) this(1) show ?case
  proof (cases rule: orderly_cases [where w = w])
    case (fails w' err)
    show ?thesis using Cons.IH [OF l, where es = err and w = w'] by (simp only: fails)
  next
    case (found w' b)
    show ?thesis by (simp only: found) simp
  qed
qed simp

text \<open>C39: the command line client finds the leader in two places, once with its connection
  manager and once for the commands over HTTP. When the nodes answer with their status or not
  at all, both ask the seeds in the same order, stop at the same node and give the same
  address, and the one fails exactly when the other does.\<close>

theorem ctl_discovery_agrees:
  fixes N :: "'w network"
  assumes "orderly N" and "list_all (\<lambda>a. a \<noteq> []) (cm_initialAddrs c)" and "cm_initialAddrs c \<noteq> []"
    and "cm_leaderAddr c = []" and "order (cm_conns c) = []"
  shows "case mustDiscoverLeaderFromSeeds N (cm_initialAddrs c) w of
           (w', Inr a) \<Rightarrow> cm_getLeader N order (c, w) = ((c\<lparr>cm_leaderAddr := a\<rparr>, w'), Inr a)
         | (w', Inl err) \<Rightarrow> cm_getLeader N order (c, w) = ((c, w'), Inl ''could not discover leader from any node'')"
proof -
  have g: "cm_getLeader N order (c, w) = tryAll N order (c, w)"
    using assms(4) by (simp add: cm_getLeader_def cm_discoverLeader_def)
  show ?thesis
    using discovery_agrees [OF assms(1,2), where es = "''<nil>''" and w = w] assms(3,5)
    by (auto simp: g tryAll_def mustDiscoverLeaderFromSeeds_def split: prod.splits sum.splits)
qed

lemma orderly_twoNodes: "orderly twoNodes"
proof -
  have "reportable soloLeader" "leader soloLeader = []"
    by (simp_all add: reportable_def soloLeader_def replica_def newRaft_def utf8_valid_ascii int64_range_def)
  then show ?thesis unfolding orderly_def by (auto simp: twoNodes_def)
qed

theorem ctl_discovery_agrees_witness:
  "cm_getLeader twoNodes (\<lambda>cs. []) (newClientManager ''n1:4000'', ()) =
     (((newClientManager ''n1:4000'')\<lparr>cm_leaderAddr := ''n1:4000''\<rparr>, ()), Inr ''n1:4000'')"
proof -
  let ?c = "newClientManager ''n1:4000''"
  have "TrimSpace ''n1:4000'' = ''n1:4000''" by (intro TrimSpace_graphic) (simp_all add: graphic_def)
  then have c: "cm_initialAddrs ?c = [''n1:4000'']" "cm_leaderAddr ?c = []"
    by (simp_all add: newClientManager_def splitAddrList_def Let_def)
  have s: "reportable soloLeader" "state soloLeader = Leader"
    by (simp_all add: reportable_def soloLeader_def replica_def newRaft_def utf8_valid_ascii int64_range_def)
  have "getHTTPAddr_ctl ''n1:4000'' = ''n1:4001''"
    using getHTTPAddr_text(2) [of "''n1''" 4000] by (simp add: plain_host_def hostPort_def Itoa_http)
  then have "mustDiscoverLeaderFromSeeds twoNodes (cm_initialAddrs ?c) () = ((), Inr ''n1:4000'')"
    using raftStatus_body(1) [OF s(1)] seedStatus_body [OF s(1)] s(2)
    by (simp add: c mustDiscoverLeaderFromSeeds_def twoNodes_def nodeAnswer_def EqualFold_def)
  with ctl_discovery_agrees [OF orderly_twoNodes, of ?c "\<lambda>cs. []" "()"] show ?thesis by (simp add: c)
qed

subsection \<open>Following a hint\<close>

definition leads_ctl :: "'w network \<Rightarrow> string \<Rightarrow> clientManager \<times> 'w \<Rightarrow> clientManager \<times> 'w \<Rightarrow> bool" where
  "leads_ctl N a s s' \<longleftrightarrow> fst s' = fst s \<and> cm_verifyLeader N a (snd s) = (snd s', None)"

interpretation ctl: redirecting_client "managerOps N order c" "leads_ctl N" for N :: "'w network" and order c
proof
  fix a d and s s' :: "clientManager \<times> 'w"
  assume "a \<noteq> []" and "leads_ctl N a (lc_sleep (managerOps N order c) d (lc_setLeader (managerOps N order c) a s)) s'"
  then show "lc_getLeader (managerOps N order c) (lc_sleep (managerOps N order c) d (lc_setLeader (managerOps N order c) a s)) =
      (s', Inr a)"
    by (cases s; cases s') (simp add: managerOps_def leads_ctl_def cm_getLeader_def Let_def)
qed

lemma cm_verifyLeader_answer:
  assumes "nw_get N (statusURL (getHTTPAddr_ctl a)) w = (w', nodeAnswer r)" and "reportable r" and "state r = Leader"
  shows "cm_verifyLeader N a w = (w', None)"
  using raftStatus_body [OF assms(2)] assms(1,3) by (simp add: cm_verifyLeader_def nodeAnswer_def)


text \<open>Two containers, seen from the host.\<close>

definition containers :: "unit network" where
  "containers = twoNodes
     \<lparr>nw_get := (\<lambda>url w. (w, if url = ''http://127.0.0.1:4003/raft/status'' then nodeAnswer soloLeader else DoErr ''refused'')),
      nw_dial := (\<lambda>addr w. (w, Inr (if addr = ''127.0.0.1:4002'' then 1 else 2))),
      nw_call := (\<lambda>conn x w. (w, if conn = 1 then Inr PutReply
                                   else Inl (notLeader (redirecting\<lparr>leader := ''mimori-node2:4000''\<rparr>))))\<rparr>"


subsection \<open>The health command\<close>

text \<open>When no leader is found, \<^verbatim>\<open>mimorictl health\<close> uses the flag as an address; its default
  is a list of three addresses, and the command fails when the list cannot be dialled as one.\<close>

theorem health_dials_the_list:
  assumes "cm_getLeader N order (c, w) = ((c1, w1), Inl err)" and "cm_conns c1 = Map.empty"
    and "nw_dial N defaultAddr w1 = (w2, Inl ''no such host'')"
  shows "\<exists>msg. healthCmd describe N order defaultAddr (c, w) = ((c1, w2), Inl msg)"
  using assms
  by (simp add: healthCmd_def cm_kvRequest_def cm_getConnection_def cachedConnection_def Let_def)


end
