(* ===== verification/Monitoring.thy ===== *)
theory Monitoring
  imports Http_Api
begin

section \<open>Monitoring\<close>

text \<open>
  The parts that watch a cluster: the heartbeat manager of \<^verbatim>\<open>internal/cluster/cluster.go\<close>, which
  asks the peers for their health, the gauges of \<^verbatim>\<open>internal/raft/metrics.go\<close>, and the helpers
  of \<^verbatim>\<open>scripts/benchmark.go\<close>. The answers of the peers and the time are arguments. Gauges hold
  integers; the source converts them to \<^verbatim>\<open>float64\<close>, which is exact below \<open>2 ^ 53\<close>.
\<close>

subsection \<open>Heartbeats between daemons\<close>

record clusterNode =
  cn_Addr :: string
  cn_Alive :: bool
  cn_LastOK :: time

record clusterManager =
  cg_SelfAddr :: string
  cg_Peers :: "clusterNode list"
  cg_stopped :: bool

definition cluster_New :: "string \<Rightarrow> string list \<Rightarrow> clusterManager" where
  "cluster_New selfAddr ps =
     \<lparr>cg_SelfAddr = selfAddr,
      cg_Peers = map (\<lambda>addr. \<lparr>cn_Addr = addr, cn_Alive = False, cn_LastOK = 0\<rparr>) (filter (\<lambda>addr. addr \<noteq> selfAddr) ps),
      cg_stopped = False\<rparr>"

definition healthURL :: "string \<Rightarrow> int \<Rightarrow> string" where
  "healthURL host basePort =
     ''http://'' @ hostPort (if host = [] then ''127.0.0.1'' else host) (wrap64 (basePort + 1)) @ ''/healthz''"

text \<open>\<open>probe url\<close> is the outcome of the request and the time after it.\<close>

definition pingPeer :: "(string \<Rightarrow> sendResult \<times> time) \<Rightarrow> clusterNode \<Rightarrow> clusterNode" where
  "pingPeer probe peer =
     (let (host, basePort) = ParseHostPort (cn_Addr peer) in
      if basePort = 0 then peer\<lparr>cn_Alive := False\<rparr>
      else case probe (healthURL host basePort) of
        (Answer st ct body, now) \<Rightarrow>
          if st = 200 then peer\<lparr>cn_Alive := True, cn_LastOK := now\<rparr> else peer\<lparr>cn_Alive := False\<rparr>
      | _ \<Rightarrow> peer\<lparr>cn_Alive := False\<rparr>)"

definition pingPeers :: "(string \<Rightarrow> sendResult \<times> time) \<Rightarrow> clusterManager \<Rightarrow> clusterManager" where
  "pingPeers probe c = c\<lparr>cg_Peers := map (pingPeer probe) (cg_Peers c)\<rparr>"

text \<open>One turn of the loop of \<^verbatim>\<open>Start\<close>, and \<^verbatim>\<open>Stop\<close>; closing the channel twice panics.\<close>

definition clusterTick :: "(string \<Rightarrow> sendResult \<times> time) \<Rightarrow> clusterManager \<Rightarrow> clusterManager" where
  "clusterTick probe c = (if cg_stopped c then c else pingPeers probe c)"

definition cluster_Stop :: "clusterManager \<Rightarrow> clusterManager option" where
  "cluster_Stop c = (if cg_stopped c then None else Some (c\<lparr>cg_stopped := True\<rparr>))"

definition PeersStatus :: "clusterManager \<Rightarrow> clusterNode list" where
  "PeersStatus c = cg_Peers c"

subsection \<open>Gauges\<close>

datatype gauge =
    GIsLeader NodeID | GTerm NodeID | GCommitIndex NodeID | GLastApplied NodeID | GLogLength NodeID
  | GLogBaseIndex NodeID | GSnapshotSize NodeID | GReplicationLag NodeID NodeID

type_synonym gauges = "gauge \<rightharpoonup> int"

text \<open>\<open>order\<close> is the order in which Go visits the map of match indices.\<close>

definition updateMetrics :: "NodeID list \<Rightarrow> raft \<Rightarrow> gauges \<Rightarrow> gauges" where
  "updateMetrics order r g =
     (let n = id_r r;
          g1 = g(GIsLeader n \<mapsto> (if state r = Leader then 1 else 0), GTerm n \<mapsto> term_r r, GCommitIndex n \<mapsto> commitIndex r,
                 GLastApplied n \<mapsto> lastApplied r, GLogLength n \<mapsto> int (length (log_r r)),
                 GLogBaseIndex n \<mapsto> logBaseIndex r,
                 GSnapshotSize n \<mapsto> (case snapshot r of Some s \<Rightarrow> int (length (SnapData s)) | None \<Rightarrow> 0))
      in foldl (\<lambda>g peer. case matchIndex r peer of
                  None \<Rightarrow> g
                | Some matchIdx \<Rightarrow>
                    g(GReplicationLag n peer \<mapsto> (if state r = Leader then commitIndex r - matchIdx else 0))) g1 order)"

subsection \<open>Helpers of the benchmark\<close>

text \<open>Addresses are UTF-8; the loop over runes then copies their bytes.\<close>

fun splitCommaLoop :: "string \<Rightarrow> string \<Rightarrow> string list" where
  "splitCommaLoop [] current = (if current \<noteq> [] then [current] else [])"
| "splitCommaLoop (c # s) current =
     (if c = CHR '','' then current # splitCommaLoop s [] else splitCommaLoop s (current @ [c]))"

definition splitComma :: "string \<Rightarrow> string list" where
  "splitComma s = splitCommaLoop s []"

definition parseAddrs :: "string \<Rightarrow> string list" where
  "parseAddrs addrs = (if addrs = [] then [] else filter (\<lambda>a. a \<noteq> []) (splitComma addrs))"

text \<open>The exchange sort of \<^verbatim>\<open>percentile\<close>: the inner and the outer loop.\<close>

definition exchange :: "nat \<Rightarrow> nat \<Rightarrow> int list \<Rightarrow> int list" where
  "exchange i j xs = (if xs ! j < xs ! i then xs[i := xs ! j, j := xs ! i] else xs)"

definition innerLoop :: "nat \<Rightarrow> int list \<Rightarrow> int list" where
  "innerLoop i xs = foldl (\<lambda>xs j. exchange i j xs) xs [Suc i..<length xs]"

definition outerLoop :: "int list \<Rightarrow> int list" where
  "outerLoop xs = foldl (\<lambda>ys i. innerLoop i ys) xs [0..<length xs]"

text \<open>\<open>idx\<close> is the result of the floating point product \<^verbatim>\<open>int(float64(len-1) * p)\<close>.\<close>

definition percentile :: "nat \<Rightarrow> int list \<Rightarrow> int" where
  "percentile idx durations = (if durations = [] then 0 else outerLoop durations ! idx)"


subsection \<open>What the parts show\<close>

lemma healthz_ok: "rs_Status (healthz r) = 200"
  by (simp add: healthz_def jsonReply_def Let_def)

text \<open>A peer counts as alive exactly when its address has a port and the request to the port
  after it, on the loopback host when there is no host, is answered with 200; a running node
  always answers that. The time of the last success never moves without one.\<close>

theorem pingPeers_alive:
  "map cn_Alive (PeersStatus (pingPeers probe c)) =
     map (\<lambda>p. let (h, port) = ParseHostPort (cn_Addr p) in
            port \<noteq> 0 \<and> (\<exists>ct body now. probe (healthURL h port) = (Answer 200 ct body, now))) (PeersStatus c)"
  by (auto simp: pingPeers_def PeersStatus_def pingPeer_def Let_def split: prod.splits sendResult.splits)

lemma lag_fold:
  fixes r :: raft and order :: "NodeID list"
  defines "step \<equiv> \<lambda>g peer. case matchIndex r peer of None \<Rightarrow> g
      | Some m \<Rightarrow> g(GReplicationLag (id_r r) peer \<mapsto> (if state r = Leader then commitIndex r - m else 0))"
  shows "foldl step g order x =
    (case x of GReplicationLag n p \<Rightarrow>
       if n = id_r r \<and> p \<in> set order \<and> matchIndex r p \<noteq> None
       then Some (if state r = Leader then commitIndex r - the (matchIndex r p) else 0) else g x
     | _ \<Rightarrow> g x)"
  by (induction order arbitrary: g) (auto simp: step_def split: gauge.split option.splits)

text \<open>After an update the gauges of the node are its state, and a leader's lag gauges are the
  distances of its peers. The gauge of a node that is no longer a peer keeps its last value.\<close>

theorem updateMetrics_shows_state:
  fixes g :: gauges and n :: NodeID
  assumes "set order = dom (matchIndex r)" and "id_r r = n"
  defines "g' \<equiv> updateMetrics order r g"
  shows "g' (GTerm n) = Some (term_r r)" and "g' (GCommitIndex n) = Some (commitIndex r)"
    and "g' (GLastApplied n) = Some (lastApplied r)" and "g' (GIsLeader n) = Some (if state r = Leader then 1 else 0)"
    and "state r = Leader \<Longrightarrow> matchIndex r p = Some m \<Longrightarrow> g' (GReplicationLag n p) = Some (commitIndex r - m)"
    and "matchIndex r p = None \<Longrightarrow> g' (GReplicationLag n p) = g (GReplicationLag n p)"
  using assms(1,2) by (auto simp: g'_def updateMetrics_def lag_fold Let_def)

lemma splitCommaLoop_Split:
  "filter (\<lambda>a. a \<noteq> []) (splitCommaLoop s cur) =
     (case Split s (CHR '','') of [] \<Rightarrow> [] | p # ps \<Rightarrow> filter (\<lambda>a. a \<noteq> []) ((cur @ p) # ps))"
proof (induction s arbitrary: cur)
  case (Cons c s)
  have "Split s (CHR '','') \<noteq> []" by (induction s) (auto split: list.splits)
  with Cons show ?case by (auto split: list.splits)
qed simp

text \<open>The benchmark splits its addresses as the daemon splits its peers.\<close>

theorem parseAddrs_splitPeers: "parseAddrs s = splitPeers s"
proof -
  have "Split s (CHR '','') \<noteq> []" by (induction s) (auto split: list.splits)
  then show ?thesis
    using splitCommaLoop_Split [of s "[]"] by (auto simp: parseAddrs_def splitPeers_def splitComma_def split: list.splits)
qed

subsection \<open>The exchange sort\<close>

lemma exchange_length [simp]: "length (exchange i j xs) = length xs"
  by (simp add: exchange_def)

lemma exchange_drop:
  assumes "i < j" and "j < length xs"
  shows "take i (exchange i j xs) = take i xs" and "mset (drop i (exchange i j xs)) = mset (drop i xs)"
proof -
  show "take i (exchange i j xs) = take i xs" using assms by (simp add: exchange_def)
  let ?d = "drop i xs"
  have "drop i (xs[i := xs ! j, j := xs ! i]) = ?d[0 := ?d ! (j - i), j - i := ?d ! 0]"
    using assms by (simp add: drop_update_swap)
  moreover have "mset (?d[0 := ?d ! (j - i), j - i := ?d ! 0]) = mset ?d" using assms by (intro mset_swap) auto
  ultimately show "mset (drop i (exchange i j xs)) = mset (drop i xs)" by (simp add: exchange_def)
qed

lemma exchange_least:
  assumes "i < j" and "j < length xs" and "\<And>b. i < b \<Longrightarrow> b < j \<Longrightarrow> xs ! i \<le> xs ! b"
  shows "i < b \<Longrightarrow> b \<le> j \<Longrightarrow> exchange i j xs ! i \<le> exchange i j xs ! b"
  using assms by (auto simp: exchange_def nth_list_update not_less dest: le_neq_implies_less intro: order.strict_implies_order order.trans less_imp_le)

lemma innerLoop_upto:
  assumes "i < length xs" and "k \<le> length xs"
  defines "ys \<equiv> foldl (\<lambda>xs j. exchange i j xs) xs [Suc i..<k]"
  shows "length ys = length xs \<and> take i ys = take i xs \<and> mset (drop i ys) = mset (drop i xs) \<and>
    (\<forall>b. i < b \<longrightarrow> b < k \<longrightarrow> ys ! i \<le> ys ! b)"
  using assms(2) unfolding ys_def
proof (induction k)
  case (Suc k)
  let ?zs = "foldl (\<lambda>xs j. exchange i j xs) xs [Suc i..<k]"
  have IH: "length ?zs = length xs" "take i ?zs = take i xs" "mset (drop i ?zs) = mset (drop i xs)"
    "\<And>b. i < b \<Longrightarrow> b < k \<Longrightarrow> ?zs ! i \<le> ?zs ! b" using Suc by auto
  show ?case
  proof (cases "Suc i \<le> k")
    case True
    then have k: "i < k" "k < length ?zs" using Suc.prems IH(1) by simp_all
    have "foldl (\<lambda>xs j. exchange i j xs) xs [Suc i..<Suc k] = exchange i k ?zs" using True by simp
    then show ?thesis
      using exchange_drop [OF k] exchange_least [OF k IH(4)] IH(1-3) by (simp add: less_Suc_eq_le)
  qed auto
qed simp

definition settled :: "nat \<Rightarrow> int list \<Rightarrow> bool" where
  "settled i xs \<longleftrightarrow> sorted (take i xs) \<and> (\<forall>a \<in> set (take i xs). \<forall>b \<in> set (drop i xs). a \<le> b)"

lemma innerLoop_settles:
  assumes "i < length xs" and "settled i xs"
  shows "settled (Suc i) (innerLoop i xs)" and "length (innerLoop i xs) = length xs" and "mset (innerLoop i xs) = mset xs"
proof -
  let ?ys = "innerLoop i xs"
  have y: "length ?ys = length xs" "take i ?ys = take i xs" "mset (drop i ?ys) = mset (drop i xs)"
    "\<And>b. i < b \<Longrightarrow> b < length xs \<Longrightarrow> ?ys ! i \<le> ?ys ! b"
    using innerLoop_upto [OF assms(1), of "length xs"] by (auto simp: innerLoop_def)
  show "length ?ys = length xs" by (rule y(1))
  have "mset (take i ?ys @ drop i ?ys) = mset (take i xs @ drop i xs)" unfolding mset_append y(2,3) ..
  then show "mset ?ys = mset xs" by simp
  have "set (drop i ?ys) = set (drop i xs)" using y(3) by (rule mset_eq_setD)
  then have s: "settled i ?ys" using assms(2) by (simp add: settled_def y(2))
  have t: "take (Suc i) ?ys = take i ?ys @ [?ys ! i]" "drop i ?ys = ?ys ! i # drop (Suc i) ?ys"
    using assms(1) y(1) by (simp_all add: take_Suc_conv_app_nth Cons_nth_drop_Suc)
  have "?ys ! i \<le> b" if "b \<in> set (drop (Suc i) ?ys)" for b
  proof -
    from that obtain k where "k < length ?ys - Suc i" "b = ?ys ! (Suc i + k)" by (auto simp: in_set_conv_nth)
    then show ?thesis using y(4) [of "Suc i + k"] y(1) by simp
  qed
  then show "settled (Suc i) ?ys" using s unfolding settled_def t by (auto simp: sorted_append)
qed

text \<open>The loops of \<^verbatim>\<open>percentile\<close> sort.\<close>

theorem outerLoop_sorts: "outerLoop xs = sort xs"
proof -
  let ?ys = "\<lambda>k. foldl (\<lambda>ys i. innerLoop i ys) xs [0..<k]"
  have "settled k (?ys k) \<and> length (?ys k) = length xs \<and> mset (?ys k) = mset xs" if "k \<le> length xs" for k
    using that
  proof (induction k)
    case (Suc k)
    then show ?case using innerLoop_settles [of k "?ys k"] by simp
  qed (simp add: settled_def)
  from this [of "length xs"] have o: "settled (length xs) (outerLoop xs)" "length (outerLoop xs) = length xs"
    "mset (outerLoop xs) = mset xs" by (simp_all add: outerLoop_def)
  then have "sorted (outerLoop xs)" by (simp add: settled_def)
  then show ?thesis using o(3) by (metis properties_for_sort)
qed

end
