(* ===== verification/Spec2Isabelle.thy ===== *)
theory Spec2Isabelle
  imports Spawner Command_Line Monitoring
begin

text \<open>
  Verification of Mimori, a replicated key-value store in Go: a Raft node, the store and the
  state machine over it, the gRPC and HTTP interfaces, the daemon, and the clients.

  \<^bold>\<open>The program and its model.\<close> A daemon (\<^verbatim>\<open>cmd/mimorid\<close>) starts a Raft node
  (\<^verbatim>\<open>internal/raft\<close>), applies what the node commits to a Pebble database
  (\<^verbatim>\<open>internal/storage\<close>) and serves clients (\<^verbatim>\<open>internal/api\<close>). The client library (\<^verbatim>\<open>client\<close>)
  and the command line client (\<^verbatim>\<open>cmd/mimorictl\<close>) look for the leader over HTTP and call it
  over gRPC. Every method that holds the node's lock is one function from the node's state to
  its new state, its answer and the goroutines it starts; a goroutine is split at its remote
  call or at the channel it waits for, and the two halves are functions of their own. The
  time, random numbers, results of callbacks and of the operating system, and the answers of
  remote calls are arguments. Errors are values. A Go \<^verbatim>\<open>int\<close> is an \<open>int\<close>, with the wrap-around
  of 64 bits written out where the code adds to numbers it has parsed; the integers of
  messages are words of 32 bits. Bytes and strings are lists of characters.

  \<^bold>\<open>Theories.\<close>
  \<^item> \<open>Prelude\<close>: collections of facts, lists, maps, and the locales of a kept vote and of an
    invariant kept along runs. \<open>Go_Text\<close>, \<open>Go_Json\<close>, \<open>Go_Codec\<close>: the parts of \<^verbatim>\<open>strconv\<close>,
    \<^verbatim>\<open>strings\<close>, \<^verbatim>\<open>encoding/json\<close> and \<^verbatim>\<open>encoding/base64\<close> the sources use, down to the bytes, with
    the round trips of printing and parsing. The parser's fuel is two per byte; that it is
    enough is proved.
  \<^item> \<open>Raft_Types\<close> (\<^verbatim>\<open>types.go\<close>, the struct of \<^verbatim>\<open>raft.go\<close>, the messages), \<open>Raft_Log\<close> (log
    helpers), \<open>Raft_Storage\<close> (\<^verbatim>\<open>meta.go\<close>, \<^verbatim>\<open>storage.go\<close>, \<^verbatim>\<open>snapshot.go\<close>: three interpretations of
    the locale of a durable store over files with failing writes), \<open>Raft_Election\<close>,
    \<open>Raft_Replication\<close>, \<open>Raft_Config\<close>, \<open>Raft_Snapshot\<close>, \<open>Raft_Applier\<close>, \<open>Raft_Restart\<close>,
    \<open>Raft_Sender\<close> (\<^verbatim>\<open>rpc_client.go\<close>), \<open>Conn_Pool\<close> (\<^verbatim>\<open>conn_pool.go\<close>), \<open>Raft_Admin\<close>: the
    handlers of \<^verbatim>\<open>raft.go\<close> and \<^verbatim>\<open>rpc.go\<close> in the order of the protocol.
  \<^item> \<open>Raft_Node\<close>: all events of one node as one step function, with the invariant of its state
    and the fate of its votes along every sequence of events. \<open>Raft_System\<close>: a cluster as an
    inductive step relation over nodes and messages, with safety of elections.
  \<^item> \<open>KV_Store\<close> (\<^verbatim>\<open>storage.go\<close> over Pebble as a parameter), \<open>State_Machine\<close> (the daemon's
    configuration and apply loop, refining a map), \<open>KV_Service\<close> (gRPC methods), \<open>Addresses\<close>
    (\<^verbatim>\<open>util.go\<close> and the address helpers of server and clients), \<open>Http_Api\<close> (HTTP handlers),
    \<open>Spawner\<close> (processes started from the dashboard).
  \<^item> \<open>Client_Library\<close> (\<^verbatim>\<open>client.go\<close>) and \<open>Command_Line\<close> (\<^verbatim>\<open>mimorictl\<close>): two interpretations of the
    locale of a client that follows hints. \<open>Monitoring\<close>: \<^verbatim>\<open>cluster.go\<close>, \<^verbatim>\<open>metrics.go\<close> and the
    helpers of the benchmark. This theory: a write and a read through all layers.

  \<^bold>\<open>What is shown.\<close> Elections: at most one leader per term in a cluster of fixed membership,
  under the proviso that votes are counted in the term they were asked for, which the code
  does not check, and a run with two leaders without it; votes are given once, and are on disk
  before they are sent. Replication: log matching, stability of committed entries, the commit
  rule as the greatest index of the term on a majority, convergence of a leader that backs up,
  batches as stretches of the log. Snapshots, restart and configuration changes: queries are
  unchanged by compaction, a restart restores the state, quorums of neighbouring
  configurations overlap. State machine: entries are applied in order and once, replicas that
  applied the same entries agree, and replaying after a crash changes nothing. Interfaces: who
  answers a read, how reads and hints are routed between server, HTTP side and clients, that
  retries end, how a spawned node joins. Some theorems show that the code does not do what it
  means to: skipped batches, lost writes that are acknowledged, keys that survive a restore,
  and others.

  \<^bold>\<open>Loops.\<close> Loops over an index are functions with a measure, loops over data are structural;
  none of the definitions of the program uses fuel except the JSON parser. The apply loop and
  the timers run forever in the source: one turn of each is modelled, and sequences of turns
  where a theorem needs them.

  \<^bold>\<open>Not modelled.\<close> Generated protobuf and gRPC code, the Pebble, Prometheus, zerolog and cobra
  libraries, listening on sockets and serving the embedded dashboard: calls of code outside the
  sources, or output only. The Prometheus counters and histograms that the handlers update are
  output only and left out of the handlers; the gauges are in \<open>Monitoring\<close>. The browser's script renders answers. The worker goroutines and the
  printed report of the benchmark, and the example program, only call the client library. The
  interleaving of goroutines inside one locked section is not observable; between locked
  sections it is the order of the steps of \<open>Raft_Node\<close> and \<open>Raft_System\<close>. Contexts and deadlines
  show only as outcomes of calls. HTTP routing and path cleaning of the Go library happen before
  the handlers.
\<close>

section \<open>From the client to the store\<close>

text \<open>The network of a client and one node at address \<open>a\<close>. A call of the key-value service runs
  the server's method; a write that has to wait goes on with the node's own work, a heartbeat,
  a sweep of the applier and the daemon's loop, and is answered when its channel is closed.\<close>

definition writeCall ::
  "'d pebble \<Rightarrow> time \<Rightarrow> (int \<Rightarrow> error + bytes) \<Rightarrow> kvReply \<Rightarrow> raft \<times> (grpcErr + nat) \<Rightarrow> 'd \<Rightarrow> (raft \<times> 'd) \<times> (grpcErr + kvReply)"
where
  "writeCall P now sn reply res d =
     (case res of
        (r1, Inl err) \<Rightarrow> ((r1, d), Inl err)
      | (r1, Inr ch) \<Rightarrow>
          let r3 = runApplier now sn (fst (sendHeartbeats r1)) in
          ((r3\<lparr>applyCh := []\<rparr>, applyLoop P (applyCh r3) d),
           if acknowledged ch r3 then Inr reply else Inl (PlainErr ''deadline exceeded'')))"

definition oneNode :: "'d pebble \<Rightarrow> string \<Rightarrow> time \<Rightarrow> (int \<Rightarrow> error + bytes) \<Rightarrow> (raft \<times> 'd) network" where
  "oneNode P a now sn =
     \<lparr>nw_get = (\<lambda>url (r, d). ((r, d), if url = statusURL (getHTTPAddr a) then nodeAnswer r else DoErr ''refused'')),
      nw_post = (\<lambda>url w. (w, DoErr ''refused'')),
      nw_dial = (\<lambda>addr w. (w, if addr = a then Inr 0 else Inl ''refused'')),
      nw_usable = (\<lambda>conn w. True),
      nw_call = (\<lambda>conn x (r, d).
        case x of
          CallPut k v \<Rightarrow> writeCall P now sn PutReply (Server_Put k v r) d
        | CallDelete k \<Rightarrow> writeCall P now sn DeleteReply (Server_Delete k r) d
        | CallGet k stale \<Rightarrow>
            ((r, d), case Server_Get P now k stale r d of Inl err \<Rightarrow> Inl err | Inr (v, found) \<Rightarrow> Inr (GetReply v found))
        | CallHealth \<Rightarrow> ((r, d), Inr (HealthReply Server_Health))),
      nw_admin = (\<lambda>conn x w. (w, Inl (PlainErr ''unavailable''))),
      nw_close = (\<lambda>conn w. w), nw_sleep = (\<lambda>t w. w)\<rparr>"

lemma oneNode_getLeader:
  assumes "state r = Leader" and "reportable r" and "a \<noteq> []" and "cl_seeds c = [a]"
    and "cl_leaderAddr c = [] \<or> cl_leaderAddr c = a"
  shows "getLeader (oneNode P a now sn) (c, (r, d)) = ((c\<lparr>cl_leaderAddr := a\<rparr>, (r, d)), Inr a)"
proof -
  let ?N = "oneNode P a now sn"
  have g: "nw_get ?N (statusURL (getHTTPAddr a)) (r, d) = ((r, d), nodeAnswer r)" by (simp add: oneNode_def)
  have f: "findLeaderFromNode ?N a (r, d) = ((r, d), Inr a)" using findLeader_answer [OF g assms(2)] assms(1) by simp
  have v: "verifyLeader ?N a (r, d) = ((r, d), None)" using verifyLeader_answer [OF g assms(2)] assms(1) by simp
  from assms(5) show ?thesis
  proof
    assume "cl_leaderAddr c = []"
    then show ?thesis using assms(3,4) f by (simp add: getLeader_def discoverLeader_def)
  next
    assume "cl_leaderAddr c = a"
    then show ?thesis using assms(3) v by (simp add: getLeader_def Let_def)
  qed
qed

lemma oneNode_call:
  assumes "nw_call (oneNode P a now sn) 0 x w = (w', Inr reply)" and "cl_conns c a = None \<or> cl_conns c a = Some 0"
  shows "kvRequest (oneNode P a now sn) x a (c, w) = ((c\<lparr>cl_conns := (cl_conns c)(a \<mapsto> 0)\<rparr>, w'), Inr reply)"
proof -
  have "(cl_conns c)(a \<mapsto> 0) = cl_conns c" if "cl_conns c a = Some 0" using that by auto
  then show ?thesis
    using assms
    by (auto simp: kvRequest_def client_getConnection_def cachedConnection_def oneNode_def Let_def)
qed

lemma oneNode_executes:
  assumes lead: "state r = Leader" "reportable r" "a \<noteq> []" "cl_seeds c = [a]" "cl_leaderAddr c = [] \<or> cl_leaderAddr c = a"
    and "0 < cl_maxRetries c" and "cl_conns c a = None \<or> cl_conns c a = Some 0"
    and "nw_call (oneNode P a now sn) 0 x (r, d) = (w', Inr reply)"
  shows "executeWithRetry (oneNode P a now sn) (kvRequest (oneNode P a now sn) x) (c, (r, d)) =
    ((c\<lparr>cl_leaderAddr := a, cl_conns := (cl_conns c)(a \<mapsto> 0)\<rparr>, w'), Done reply, [a])"
proof -
  let ?N = "oneNode P a now sn" and ?C = "leaderOps (oneNode P a now sn) c"
  have g: "lc_getLeader ?C (c, (r, d)) = ((c\<lparr>cl_leaderAddr := a\<rparr>, (r, d)), Inr a)"
    using oneNode_getLeader [OF lead] by (simp add: leaderOps_def)
  have k: "kvRequest ?N x a (c\<lparr>cl_leaderAddr := a\<rparr>, (r, d)) = ((c\<lparr>cl_leaderAddr := a, cl_conns := (cl_conns c)(a \<mapsto> 0)\<rparr>, w'), Inr reply)"
    using oneNode_call [OF assms(8), of "c\<lparr>cl_leaderAddr := a\<rparr>"] assms(7) by simp
  have t: "retryTarget ?C 0 (Inr a) = Inr a" by (simp add: retryTarget_def)
  from retryLoop_done [where call = "kvRequest ?N x", OF assms(6) g t k] show ?thesis by (simp add: executeWithRetry_def)
qed



end
